theory Spec2Isabelle
  imports Complex_Main "HOL-Library.Word"
begin

unbundle bit_operations_syntax

section \<open>CYBERGRID: the outbreak simulation of the App component\<close>

text \<open>
  The embedding follows the one source file of the game. JavaScript numbers are
  idealised as \<^typ>\<open>real\<close> (integers that the code keeps integral are \<^typ>\<open>nat\<close> or
  \<^typ>\<open>int\<close>); the 32-bit operations of the generator are \<^typ>\<open>32 word\<close> operations.
  React state is one record; a handler or an animation frame is a function from the
  committed state to the next committed state (state updates queued by a callback are
  applied after it returns, and effects run after the commit).
\<close>

subsection \<open>Utilities\<close>

definition clamp :: "real \<Rightarrow> real \<Rightarrow> real \<Rightarrow> real" where
  "clamp n a b = max a (min b n)"

text \<open>
  \<open>seededRandom(seed)\<close>: the closure variable \<open>s\<close> starts at \<open>seed >>> 0\<close> and is a
  JavaScript number that each call increases by \<open>0x6D2B79F5\<close> without wrapping; the
  bitwise operators and \<open>Math.imul\<close> read it modulo \<open>2^32\<close>. \<open>rand\<close> is one call of the
  returned closure: it takes the closure variable and returns the drawn number with the
  new closure variable.
\<close>

definition seededRandom :: "nat \<Rightarrow> nat" where
  "seededRandom seed = seed mod 2 ^ 32"

definition rand :: "nat \<Rightarrow> real \<times> nat" where
  "rand s0 =
     (let s = s0 + 0x6D2B79F5;
          sw = (word_of_nat s :: 32 word);
          t1 = (sw XOR drop_bit 15 sw) * (1 OR sw);
          t2 = t1 XOR (t1 + (t1 XOR drop_bit 7 t1) * (61 OR t1))
      in (real (unat (t2 XOR drop_bit 14 t2)) / 4294967296, s))"

subsection \<open>Constants\<close>

definition NODES :: nat where
  "NODES = 32"

definition CRITICAL_COUNT :: nat where
  "CRITICAL_COUNT = 3"

definition START_TIME :: real where
  "START_TIME = 180"

definition BASE_THREAT :: real where
  "BASE_THREAT = 0.085"

definition ENERGY_MAX :: real where
  "ENERGY_MAX = 100"

definition ENERGY_REGEN :: real where
  "ENERGY_REGEN = 7"

definition CLEAN_TIME :: real where
  "CLEAN_TIME = 6.5"

datatype action = Isolate | Patch | Honeypot | Sweep

fun cost :: "action \<Rightarrow> real" where
  "cost Isolate = 18"
| "cost Patch = 24"
| "cost Honeypot = 28"
| "cost Sweep = 36"

text \<open>Cooldowns are in milliseconds, as the clock \<open>performance.now()\<close> is.\<close>

fun cooldown :: "action \<Rightarrow> real" where
  "cooldown Isolate = 1200"
| "cooldown Patch = 1400"
| "cooldown Honeypot = 4000"
| "cooldown Sweep = 12000"

subsection \<open>Names\<close>

definition PREFIX :: "string list" where
  "PREFIX = [''core'', ''edge'', ''dmz'', ''auth'', ''cache'', ''db'', ''api'', ''ops'',
     ''mesh'', ''quant'', ''ml'', ''crypto'', ''telemetry'', ''log'', ''mail'']"

definition SUFFIX :: "string list" where
  "SUFFIX = [''-north'', ''-south'', ''-west'', ''-east'', ''-alpha'', ''-beta'', ''-gamma'',
     ''-x'', ''-y'', ''-z'', ''-01'', ''-02'', ''-03'', ''-svc'', ''-gw'']"

definition CRIT_NAMES :: "string list" where
  "CRIT_NAMES = [''Core-DB'', ''Finance-DB'', ''Auth-Server'', ''PKI-Root'', ''Ledger'',
     ''SCADA-Hub'']"

definition genName :: "nat \<Rightarrow> string \<times> nat" where
  "genName s =
     (let (r1, s1) = rand s;
          (r2, s2) = rand s1
      in (PREFIX ! nat \<lfloor>r1 * real (length PREFIX)\<rfloor> @ SUFFIX ! nat \<lfloor>r2 * real (length SUFFIX)\<rfloor>,
          s2))"

subsection \<open>Network generation\<close>

record node =
  nid :: nat
  node_x :: real
  node_y :: real
  infected :: bool
  isolated :: bool
  patched :: real
  honeypot :: bool
  security :: real
  critical :: bool
  name :: string
  cleanProg :: real
  lastInfectAt :: real

record edge =
  edge_a :: nat
  edge_b :: nat
  edge_w :: real

record graph =
  nodes :: "node list"
  edges :: "edge list"

definition rings :: nat where
  "rings = 3"

definition ringCount :: "nat \<Rightarrow> nat" where
  "ringCount r = nat (round ((real NODES / real rings) * (1 + (if r = 2 then 0.2 else 0))))"

text \<open>
  The body of the inner placement loop: the node pushed for index \<open>i\<close> of a ring of
  \<open>rc\<close> nodes, with id \<open>ident\<close>. The draws are taken in the source's order: angle,
  jitter, security, then the two of \<open>genName\<close>.
\<close>

definition placeNode ::
  "real \<Rightarrow> real \<Rightarrow> real \<Rightarrow> nat \<Rightarrow> nat \<Rightarrow> nat \<Rightarrow> nat \<Rightarrow> node \<times> nat" where
  "placeNode cx cy rRadius rc i ident s =
     (let (r1, s1) = rand s;
          t = (real i / real rc) * pi * 2 + r1 * 0.1;
          (r2, s2) = rand s1;
          jitter = (r2 - 0.5) * 30;
          x = cx + cos t * (rRadius + jitter);
          y = cy + sin t * (rRadius + jitter);
          (r3, s3) = rand s2;
          (nm, s4) = genName s3
      in (\<lparr>nid = ident, node_x = x, node_y = y, infected = False, isolated = False,
           patched = 0, honeypot = False, security = 0.3 + r3 * 0.55,
           critical = False, name = nm, cleanProg = 0,
           lastInfectAt = - 1000000000\<rparr>,
          s4))"

text \<open>
  The inner placement loop of one ring, from index \<open>i\<close>: the loop state is the next
  id, the nodes pushed so far and the closure variable of the generator.
\<close>

function placeRing ::
  "real \<Rightarrow> real \<Rightarrow> real \<Rightarrow> nat \<Rightarrow> nat \<Rightarrow> nat \<times> node list \<times> nat \<Rightarrow> nat \<times> node list \<times> nat" where
  "placeRing cx cy rRadius rc i (ident, ns, s) =
     (if i < rc \<and> ident < NODES then
        (let (n, s4) = placeNode cx cy rRadius rc i ident s
         in placeRing cx cy rRadius rc (i + 1) (ident + 1, ns @ [n], s4))
      else (ident, ns, s))"
  by pat_completeness auto
termination
  by (relation "measure (\<lambda>(cx, cy, rRadius, rc, i, st). rc - i)") auto

definition placeNodes :: "real \<Rightarrow> real \<Rightarrow> nat \<Rightarrow> node list \<times> nat" where
  "placeNodes width height s =
     (let cx = width / 2;
          cy = height / 2;
          radius = min width height * 0.36
      in snd (fold (\<lambda>r st. placeRing cx cy (radius * (0.4 + real r * 0.3)) (ringCount r) 0 st)
                [0..<rings] (0, [], s)))"

text \<open>
  Tagging the critical nodes: one draw per iteration, and the drawn node is marked
  whether or not an earlier iteration drew it already.
\<close>

definition tagCritical :: "nat \<Rightarrow> node list \<times> nat \<Rightarrow> node list \<times> nat" where
  "tagCritical i st =
     (let (ns, s) = st;
          (r, s1) = rand s;
          idx = nat \<lfloor>r * real (length ns)\<rfloor>;
          n = ns ! idx
      in (ns[idx := n\<lparr>critical := True,
                      name := CRIT_NAMES ! (i mod length CRIT_NAMES),
                      security := min 1 (security n + 0.15)\<rparr>],
          s1))"

definition tagCriticals :: "node list \<times> nat \<Rightarrow> node list \<times> nat" where
  "tagCriticals st = fold tagCritical [0..<CRITICAL_COUNT] st"

text \<open>
  \<open>edges.find(...)\<close> with the predicate of both loops: an edge joining \<open>a\<close> and \<open>b\<close> in
  either orientation.
\<close>

definition findEdge :: "edge list \<Rightarrow> nat \<Rightarrow> nat \<Rightarrow> edge option" where
  "findEdge es a b =
     find (\<lambda>e. (edge_a e = a \<and> edge_b e = b) \<or> (edge_a e = b \<and> edge_b e = a)) es"

definition k_nearest :: nat where
  "k_nearest = 3"

text \<open>
  The candidates of node \<open>a\<close>: every other node with its squared distance, sorted by
  distance (the sort is stable), cut to \<open>k + 1 + floor(rand() * 2)\<close> entries.
\<close>

definition dists :: "node list \<Rightarrow> node \<Rightarrow> real \<Rightarrow> (nat \<times> real) list" where
  "dists ns a r =
     take (k_nearest + 1 + nat \<lfloor>r * 2\<rfloor>)
       (sort_key snd
         (filter (\<lambda>c. fst c \<noteq> nid a)
           (map (\<lambda>b. (nid b, (node_x a - node_x b) ^ 2 + (node_y a - node_y b) ^ 2)) ns)))"

definition addNear :: "nat \<Rightarrow> nat \<times> real \<Rightarrow> edge list \<times> nat \<Rightarrow> edge list \<times> nat" where
  "addNear a n st =
     (let (es, s) = st;
          b = fst n
      in if findEdge es a b = None then
           (let (r, s1) = rand s
            in (es @ [\<lparr>edge_a = a, edge_b = b, edge_w = 0.5 + r * 0.9\<rparr>], s1))
         else (es, s))"

definition connectNode :: "node list \<Rightarrow> nat \<Rightarrow> edge list \<times> nat \<Rightarrow> edge list \<times> nat" where
  "connectNode ns i st =
     (let (es, s) = st;
          a = ns ! i;
          (r, s1) = rand s
      in fold (addNear (nid a)) (dists ns a r) (es, s1))"

definition crossLink :: "node list \<Rightarrow> nat \<Rightarrow> edge list \<times> nat \<Rightarrow> edge list \<times> nat" where
  "crossLink ns i st =
     (let (es, s) = st;
          (r1, s1) = rand s;
          a = nat \<lfloor>r1 * real (length ns)\<rfloor>;
          (r2, s2) = rand s1;
          b = nat \<lfloor>r2 * real (length ns)\<rfloor>
      in if a \<noteq> b \<and> findEdge es a b = None then
           (let (r3, s3) = rand s2
            in (es @ [\<lparr>edge_a = a, edge_b = b, edge_w = 0.4 + r3 * 0.8\<rparr>], s3))
         else (es, s2))"

definition seedInfection :: "nat \<Rightarrow> node list \<times> nat \<Rightarrow> node list \<times> nat" where
  "seedInfection i st =
     (let (ns, s) = st;
          (r, s1) = rand s;
          idx = nat \<lfloor>r * real (length ns)\<rfloor>
      in (ns[idx := (ns ! idx)\<lparr>infected := True, lastInfectAt := 0\<rparr>], s1))"

definition generateNetwork :: "real \<Rightarrow> real \<Rightarrow> nat \<Rightarrow> graph" where
  "generateNetwork width height seed =
     (let (ns1, s1) = placeNodes width height (seededRandom seed);
          (ns2, s2) = tagCriticals (ns1, s1);
          (es1, s3) = fold (connectNode ns2) [0..<length ns2] ([], s2);
          (es2, s4) = fold (crossLink ns2) [0..<nat \<lfloor>real NODES * 0.4\<rfloor>] (es1, s3);
          (ns3, s5) = fold seedInfection [0..<2] (ns2, s4)
      in \<lparr>nodes = ns3, edges = es2\<rparr>)"

subsection \<open>Game state\<close>

text \<open>
  The messages of the event log, one constructor per message of the source:
  \<open>SelectFirst\<close> is "Select a node first.", \<open>NotReady a\<close> is "Isolate not ready.",
  "Patch not ready.", "Honeypot not ready." or "Sweep not ready.", and the others are the
  messages of a successful action, of a cleaned node, of the two outcomes and of the start.
\<close>

datatype logmsg =
  SelectFirst
  | NotReady action
  | ToggledIsolation nat
  | Patching string
  | HoneypotToggled string
  | SweepEngaged
  | Cleaned string
  | RiskMaxed
  | Sustained
  | Initialized

text \<open>
  The state of the component: the graph, the selection, the counters, the run flags, the
  log, the time of last use of each action, the end of the sweep window, and
  \<open>window.__latestNodes\<close>, the snapshot that an effect stores after every commit.
\<close>

record game = graph +
  selected :: "nat option"
  energy :: real
  timer :: real
  risk :: real
  score :: int
  running :: bool
  paused :: bool
  gameOver :: bool
  victory :: bool
  logs :: "logmsg list"
  cooldowns :: "action \<Rightarrow> real"
  sweepActiveUntil :: real
  latestNodes :: "node list"

definition initialCooldowns :: "action \<Rightarrow> real" where
  "initialCooldowns = (\<lambda>a. - 1000000000)"

definition initialApp :: game where
  "initialApp =
     \<lparr>nodes = [], edges = [], selected = None, energy = 70, timer = START_TIME, risk = 0,
      score = 0, running = False, paused = False, gameOver = False, victory = False,
      logs = [], cooldowns = initialCooldowns, sweepActiveUntil = - 1, latestNodes = []\<rparr>"

text \<open>The effect that runs after a commit: it stores the committed nodes as the snapshot.\<close>

definition commit :: "game \<Rightarrow> game" where
  "commit st = st\<lparr>latestNodes := nodes st\<rparr>"

definition pushLog :: "logmsg \<Rightarrow> game \<Rightarrow> game" where
  "pushLog msg st =
     st\<lparr>logs := (if length (logs st) > 140
                  then drop (length (logs st) - 110) (logs st) @ [msg]
                  else logs st @ [msg])\<rparr>"

subsection \<open>Actions\<close>

text \<open>
  The argument \<open>t\<close> of a handler is the reading of \<open>performance.now()\<close> (milliseconds of
  real time) when it runs.
\<close>

definition canUse :: "real \<Rightarrow> game \<Rightarrow> action \<Rightarrow> bool" where
  "canUse t st a = (let cdLeft = t - cooldowns st a in energy st \<ge> cost a \<and> cdLeft \<ge> cooldown a)"

definition spend :: "real \<Rightarrow> action \<Rightarrow> game \<Rightarrow> game" where
  "spend t a st =
     st\<lparr>energy := max 0 (min ENERGY_MAX (energy st - cost a)),
        cooldowns := (cooldowns st)(a := t)\<rparr>"

text \<open>
  The three targeted actions replace the selected node by an updated copy. The selection
  is always an id of the displayed graph, so the index is in range.
\<close>

definition actIsolate :: "real \<Rightarrow> game \<Rightarrow> game" where
  "actIsolate t st =
     (case selected st of
        None \<Rightarrow> pushLog SelectFirst st
      | Some sel \<Rightarrow>
          if \<not> canUse t st Isolate then pushLog (NotReady Isolate) st
          else
            (let n = nodes st ! sel;
                 st1 = st\<lparr>nodes := (nodes st)[sel := n\<lparr>isolated := \<not> isolated n\<rparr>]\<rparr>
             in commit (pushLog (ToggledIsolation sel) (spend t Isolate st1))))"

definition actPatch :: "real \<Rightarrow> game \<Rightarrow> game" where
  "actPatch t st =
     (case selected st of
        None \<Rightarrow> pushLog SelectFirst st
      | Some sel \<Rightarrow>
          if \<not> canUse t st Patch then pushLog (NotReady Patch) st
          else
            (let n = nodes st ! sel;
                 st1 = st\<lparr>nodes := (nodes st)[sel := n\<lparr>patched := max 0 (min 1 (patched n + 0.6))\<rparr>]\<rparr>
             in commit (pushLog (Patching (name n)) (spend t Patch st1))))"

definition actHoneypot :: "real \<Rightarrow> game \<Rightarrow> game" where
  "actHoneypot t st =
     (case selected st of
        None \<Rightarrow> pushLog SelectFirst st
      | Some sel \<Rightarrow>
          if \<not> canUse t st Honeypot then pushLog (NotReady Honeypot) st
          else
            (let n = nodes st ! sel;
                 st1 = st\<lparr>nodes := (nodes st)[sel := n\<lparr>honeypot := \<not> honeypot n\<rparr>]\<rparr>
             in commit (pushLog (HoneypotToggled (name n)) (spend t Honeypot st1))))"

definition actSweep :: "real \<Rightarrow> game \<Rightarrow> game" where
  "actSweep t st =
     (if \<not> canUse t st Sweep then pushLog (NotReady Sweep) st
      else pushLog SweepEngaged ((spend t Sweep st)\<lparr>sweepActiveUntil := t + 8000\<rparr>))"

fun act :: "action \<Rightarrow> real \<Rightarrow> game \<Rightarrow> game" where
  "act Isolate t st = actIsolate t st"
| "act Patch t st = actPatch t st"
| "act Honeypot t st = actHoneypot t st"
| "act Sweep t st = actSweep t st"

fun actionKey :: "action \<Rightarrow> string" where
  "actionKey Isolate = ''q''"
| "actionKey Patch = ''w''"
| "actionKey Honeypot = ''e''"
| "actionKey Sweep = ''r''"

text \<open>The hotkey handler; \<open>k\<close> is the key of the event in lower case.\<close>

definition onKey :: "string \<Rightarrow> real \<Rightarrow> game \<Rightarrow> game" where
  "onKey k t st =
     (if \<not> running st \<or> paused st \<or> gameOver st then st
      else
        (let st1 = (if k = actionKey Isolate then actIsolate t st else st);
             st2 = (if k = actionKey Patch then actPatch t st1 else st1);
             st3 = (if k = actionKey Honeypot then actHoneypot t st2 else st2)
         in if k = actionKey Sweep then actSweep t st3 else st3))"

text \<open>
  A click on the button of an action: the button is disabled while \<open>canUse\<close> is false,
  and a disabled button fires no click.
\<close>

definition clickAction :: "action \<Rightarrow> real \<Rightarrow> game \<Rightarrow> game" where
  "clickAction a t st = (if \<not> canUse t st a then st else act a t st)"

text \<open>The remaining cooldown that a button shows, in seconds.\<close>

definition cdLeft :: "action \<Rightarrow> real \<Rightarrow> game \<Rightarrow> real" where
  "cdLeft a t st = max 0 ((cooldown a - (t - cooldowns st a)) / 1000)"

subsection \<open>The main loop\<close>

text \<open>
  One attempt across an edge in one direction. The loop state is the node array, the
  number of draws of \<open>Math.random()\<close> taken so far in this tick (\<open>rnd\<close> is the sequence
  of its values) and the score. A draw is taken only when the guard lets the attempt
  through. \<open>hazard\<close> is the local \<open>lambda\<close> of the attempt and \<open>infectProb\<close> its \<open>p\<close>.
\<close>

definition hazard :: "real \<Rightarrow> real \<Rightarrow> node \<Rightarrow> real" where
  "hazard base w d =
     (let lure = (if honeypot d then 1.3 else 1.0);
          harden = 1 - patched d * 0.7;
          sec = 1 - security d * 0.85
      in base * w * lure * harden * sec)"

definition infectProb :: "real \<Rightarrow> real \<Rightarrow> node \<Rightarrow> real \<Rightarrow> real" where
  "infectProb base w d dt = (let lambda = hazard base w d in 1 - exp (- lambda * dt))"

definition trySpread ::
  "real \<Rightarrow> real \<Rightarrow> real \<Rightarrow> real \<Rightarrow> (nat \<Rightarrow> real) \<Rightarrow> nat \<Rightarrow> nat \<Rightarrow>
   node list \<times> nat \<times> int \<Rightarrow> node list \<times> nat \<times> int" where
  "trySpread base w dt t rnd src dst st =
     (let (ns, k, sc) = st;
          s = ns ! src;
          d = ns ! dst
      in if \<not> infected s \<or> isolated s \<or> isolated d \<or> infected d then (ns, k, sc)
         else
           (let p = infectProb base w d dt
            in if rnd k < p
               then (ns[dst := d\<lparr>infected := True, lastInfectAt := t\<rparr>], k + 1,
                     if honeypot d then sc + 8 else sc)
               else (ns, k + 1, sc)))"

definition spreadEdge ::
  "real \<Rightarrow> real \<Rightarrow> real \<Rightarrow> (nat \<Rightarrow> real) \<Rightarrow> edge \<Rightarrow>
   node list \<times> nat \<times> int \<Rightarrow> node list \<times> nat \<times> int" where
  "spreadEdge base dt t rnd ei st =
     trySpread base (edge_w ei) dt t rnd (edge_b ei) (edge_a ei)
       (trySpread base (edge_w ei) dt t rnd (edge_a ei) (edge_b ei) st)"

definition spreadBase :: "real \<Rightarrow> real \<Rightarrow> node list \<Rightarrow> real" where
  "spreadBase t sweepUntil ns =
     (let sweepFactor = (if t < sweepUntil then 0.35 else 1.0);
          honeypotCount = length (filter honeypot ns);
          globalSlow = 1 - min 0.25 (real honeypotCount * 0.03)
      in 0.085 * sweepFactor * globalSlow)"

definition cleanNode ::
  "real \<Rightarrow> node \<Rightarrow> node list \<times> int \<times> logmsg list \<Rightarrow> node list \<times> int \<times> logmsg list" where
  "cleanNode dt n st =
     (let (acc, sc, lg) = st
      in if infected n \<and> patched n > 0 then
           (let c = cleanProg n + dt * (0.6 + patched n * 0.8)
            in if c \<ge> CLEAN_TIME
               then (acc @ [n\<lparr>infected := False, cleanProg := 0\<rparr>], sc + 25, lg @ [Cleaned (name n)])
               else (acc @ [n\<lparr>cleanProg := c\<rparr>], sc, lg))
         else (acc @ [n\<lparr>cleanProg := max 0 (cleanProg n - dt * 0.4)\<rparr>], sc, lg))"

text \<open>The updater passed to \<open>setGraph\<close>: the spread phase, then the cleaning phase.\<close>

definition updateGraph ::
  "real \<Rightarrow> real \<Rightarrow> (nat \<Rightarrow> real) \<Rightarrow> real \<Rightarrow> node list \<Rightarrow> edge list \<Rightarrow>
   node list \<times> int \<times> logmsg list" where
  "updateGraph dt t rnd sweepUntil ns es =
     (let base = spreadBase t sweepUntil ns;
          (ns1, k, sc1) = fold (spreadEdge base dt t rnd) es (ns, 0, 0)
      in fold (cleanNode dt) ns1 ([], sc1, []))"

definition computedRisk :: "node list \<Rightarrow> real" where
  "computedRisk ns =
     (let infCount = length (filter infected ns);
          critInf = length (filter (\<lambda>n. critical n \<and> infected n) ns);
          ratio = real infCount / max 1 (real (length ns))
      in max 0 (min 1 (ratio + real critInf * 0.22)))"

text \<open>
  One animation frame. \<open>ctx\<close> tells whether the canvas has a drawing context, \<open>lastT\<close> is
  the clock reading kept by the effect and \<open>t\<close> the reading of this frame. The risk is
  computed from the snapshot \<open>window.__latestNodes\<close>; the outcome is decided on the risk,
  the timer and the flag that the effect closed over, which are those of the committed
  state. The result is the next committed state, snapshot effect included.
\<close>

definition loop :: "bool \<Rightarrow> (nat \<Rightarrow> real) \<Rightarrow> real \<Rightarrow> real \<Rightarrow> game \<Rightarrow> game" where
  "loop ctx rnd lastT t st =
     (let dt = min 0.06 ((t - lastT) / 1000);
          e1 = max 0 (min ENERGY_MAX (energy st + 7 * dt));
          (ns1, sc, lg) = updateGraph dt t rnd (sweepActiveUntil st) (nodes st) (edges st);
          tm1 = max 0 (min START_TIME (timer st - dt));
          r1 = (if ctx then computedRisk (latestNodes st) else 0);
          st1 = st\<lparr>nodes := ns1, energy := e1, timer := tm1, risk := r1,
                   score := score st + sc, logs := logs st @ lg\<rparr>;
          st2 = (if risk st \<ge> 1 \<and> \<not> gameOver st then
                   st1\<lparr>gameOver := True, victory := False, running := False,
                       logs := logs st1 @ [RiskMaxed]\<rparr>
                 else if timer st \<le> 0 \<and> \<not> gameOver st then
                   st1\<lparr>gameOver := True, victory := True, running := False,
                       score := score st1 + 200, logs := logs st1 @ [Sustained]\<rparr>
                 else st1)
      in commit st2)"

text \<open>The effect of the main loop schedules a frame only while the run is live.\<close>

definition mainLoop :: "bool \<Rightarrow> (nat \<Rightarrow> real) \<Rightarrow> real \<Rightarrow> real \<Rightarrow> game \<Rightarrow> game" where
  "mainLoop ctx rnd lastT t st =
     (if \<not> running st \<or> paused st \<or> gameOver st then st else loop ctx rnd lastT t st)"

subsection \<open>Start, reset and pause\<close>

text \<open>
  \<open>width\<close> and \<open>height\<close> are the size of the canvas, and \<open>seed\<close> is the value of
  \<open>Math.floor(Math.random() * 1e9)\<close> that the handler draws.
\<close>

definition startGame :: "real \<Rightarrow> real \<Rightarrow> nat \<Rightarrow> game \<Rightarrow> game" where
  "startGame width height seed st =
     (let g = generateNetwork width height seed
      in commit (st\<lparr>nodes := nodes g, edges := edges g, energy := 70, timer := START_TIME,
                    risk := 0, score := 0, running := True, paused := False,
                    gameOver := False, victory := False, logs := [Initialized],
                    cooldowns := initialCooldowns\<rparr>))"

definition resetLayout :: "real \<Rightarrow> real \<Rightarrow> nat \<Rightarrow> game \<Rightarrow> game" where
  "resetLayout width height seed st =
     (let g = generateNetwork width height seed
      in commit (st\<lparr>nodes := nodes g, edges := edges g, selected := None\<rparr>))"

text \<open>The Start/Pause button of the action panel.\<close>

definition pauseButton :: "real \<Rightarrow> real \<Rightarrow> nat \<Rightarrow> game \<Rightarrow> game" where
  "pauseButton width height seed st =
     (if \<not> running st \<and> \<not> gameOver st then startGame width height seed st
      else st\<lparr>paused := \<not> paused st\<rparr>)"

subsection \<open>Example states\<close>

text \<open>A plain node for the examples: unpatched, no honeypot, security 0, not critical.\<close>

definition mkNode :: "nat \<Rightarrow> bool \<Rightarrow> node" where
  "mkNode i b = \<lparr>nid = i, node_x = 0, node_y = 0, infected = b, isolated = False,
      patched = 0, honeypot = False, security = 0, critical = False, name = ''n'',
      cleanProg = 0, lastInfectAt = 0\<rparr>"

text \<open>
  A running game on two linked nodes, node 0 infected and node 1 selected, and the same
  game after it has ended in victory.
\<close>

definition exampleGame :: game where
  "exampleGame =
     \<lparr>nodes = [mkNode 0 True, mkNode 1 False],
      edges = [\<lparr>edge_a = 0, edge_b = 1, edge_w = 1\<rparr>],
      selected = Some 1, energy = 70, timer = 100, risk = 1 / 2, score = 0,
      running = True, paused = False, gameOver = False, victory = False, logs = [],
      cooldowns = initialCooldowns, sweepActiveUntil = - 1,
      latestNodes = [mkNode 0 True, mkNode 1 False]\<rparr>"

definition endedGame :: game where
  "endedGame = exampleGame\<lparr>timer := 0, running := False, gameOver := True, victory := True\<rparr>"

text \<open>
  Two games in which Isolate is not ready at clock reading 1000: in the first the energy
  is short of the cost, in the second Isolate was used 100 ms ago.
\<close>

definition lowEnergyGame :: game where
  "lowEnergyGame = exampleGame\<lparr>energy := 10\<rparr>"

definition coolingGame :: game where
  "coolingGame = exampleGame\<lparr>cooldowns := initialCooldowns(Isolate := 900)\<rparr>"

text \<open>The message that a rejected action pushes to the log.\<close>

definition rejection :: "action \<Rightarrow> game \<Rightarrow> logmsg" where
  "rejection a st = (if a \<noteq> Sweep \<and> selected st = None then SelectFirst else NotReady a)"

text \<open>A paused game in which Isolate was last used at clock reading 1000.\<close>

definition pausedGame :: game where
  "pausedGame = exampleGame\<lparr>paused := True, cooldowns := initialCooldowns(Isolate := 1000)\<rparr>"

text \<open>A running game some way into its session, with a sweep in use.\<close>

definition spentGame :: game where
  "spentGame = exampleGame\<lparr>energy := 12, timer := 100, score := 33,
     cooldowns := initialCooldowns(Sweep := 1000), sweepActiveUntil := 9000\<rparr>"

text \<open>A chain of three nodes with node 0 infected, and its two edges.\<close>

definition chainNodes :: "node list" where
  "chainNodes = [mkNode 0 True, mkNode 1 False, mkNode 2 False]"

definition edge01 :: edge where
  "edge01 = \<lparr>edge_a = 0, edge_b = 1, edge_w = 1\<rparr>"

definition edge12 :: edge where
  "edge12 = \<lparr>edge_a = 1, edge_b = 2, edge_w = 1\<rparr>"

subsection \<open>Auxiliary notions for the generator\<close>

text \<open>The closure variable of the generator after \<open>k\<close> more draws.\<close>

definition afterDraws :: "nat \<Rightarrow> nat \<Rightarrow> nat" where
  "afterDraws s k = s + k * 0x6D2B79F5"

text \<open>A node as the placement loop pushes it.\<close>

definition fresh :: "node \<Rightarrow> bool" where
  "fresh n = (\<not> critical n \<and> \<not> infected n \<and> \<not> isolated n \<and> patched n = 0 \<and> \<not> honeypot n)"

text \<open>The index that \<open>Math.floor(rand() * n)\<close> draws when the closure variable is \<open>s\<close>.\<close>

definition drawIndex :: "nat \<Rightarrow> nat \<Rightarrow> nat" where
  "drawIndex s n = nat \<lfloor>fst (rand s) * real n\<rfloor>"

text \<open>
  What a ring of the placement loop keeps, \<open>s0\<close> being the closure variable before the
  first node: clean, consecutively numbered nodes, at most \<open>NODES\<close> of them, and five
  draws taken per node.
\<close>

definition ringInv :: "nat \<Rightarrow> nat \<times> node list \<times> nat \<Rightarrow> bool" where
  "ringInv s0 st = (case st of (ident, ns, s) \<Rightarrow>
     ident = length ns \<and> length ns \<le> NODES \<and> map nid ns = [0..<length ns]
     \<and> list_all fresh ns \<and> s = afterDraws s0 (5 * length ns))"

subsection \<open>Well-formed edge lists\<close>

text \<open>The number of edges incident to node \<open>i\<close>.\<close>

definition degree :: "edge list \<Rightarrow> nat \<Rightarrow> nat" where
  "degree es i = length (filter (\<lambda>e. edge_a e = i \<or> edge_b e = i) es)"

text \<open>The predicate of \<open>edges.find\<close>: the edge joins \<open>a\<close> and \<open>b\<close>, in either orientation.\<close>

definition joins :: "edge \<Rightarrow> nat \<Rightarrow> nat \<Rightarrow> bool" where
  "joins e a b = ((edge_a e = a \<and> edge_b e = b) \<or> (edge_a e = b \<and> edge_b e = a))"

text \<open>
  An edge list over the node ids below \<open>n\<close>: endpoints are ids, no edge is a self-loop,
  and no unordered pair of nodes has two edges.
\<close>

definition edgesOk :: "nat \<Rightarrow> edge list \<Rightarrow> bool" where
  "edgesOk n es =
     (list_all (\<lambda>e. edge_a e < n \<and> edge_b e < n \<and> edge_a e \<noteq> edge_b e) es
      \<and> distinct (map (\<lambda>e. {edge_a e, edge_b e}) es))"

text \<open>The nodes joined to node \<open>i\<close> by an edge.\<close>

definition nbrs :: "edge list \<Rightarrow> nat \<Rightarrow> nat set" where
  "nbrs es i = {b. \<exists>e \<in> set es. joins e i b}"

section \<open>Properties\<close>

subsection \<open>The hazard of one attempt\<close>

text \<open>
  C2. For a destination whose security and patch level are 0 and which is no honeypot,
  across an edge of weight 0.8, with no sweep active and no honeypot on the graph, the
  hazard is \<open>0.085 * 0.8\<close> and, with \<open>dt = 0.1\<close>, the probability is
  \<open>1 - exp (- (0.085 * 0.8) * 0.1)\<close>; an attempt from an infected source that passes
  the guard compares the draw with this probability.
\<close>

theorem hazard_formula:
  assumes "security (ns ! dst) = 0" and "patched (ns ! dst) = 0" and "\<not> honeypot (ns ! dst)"
    and "\<not> t < sweepUntil" and "filter honeypot ns0 = []"
  shows "hazard (spreadBase t sweepUntil ns0) 0.8 (ns ! dst) = 0.085 * 0.8
    \<and> infectProb (spreadBase t sweepUntil ns0) 0.8 (ns ! dst) 0.1 = 1 - exp (- (0.085 * 0.8) * 0.1)
    \<and> (infected (ns ! src) \<and> \<not> isolated (ns ! src) \<and> \<not> isolated (ns ! dst)
          \<and> \<not> infected (ns ! dst) \<longrightarrow>
        trySpread (spreadBase t sweepUntil ns0) 0.8 0.1 t rnd src dst (ns, k, sc) =
           (if rnd k < 1 - exp (- (0.085 * 0.8) * 0.1)
            then (ns[dst := (ns ! dst)\<lparr>infected := True, lastInfectAt := t\<rparr>], k + 1, sc)
            else (ns, k + 1, sc)))"
  using assms by (simp add: hazard_def infectProb_def spreadBase_def trySpread_def Let_def)

theorem hazard_formula_witness:
  "hazard (spreadBase 0 (- 1) [mkNode 0 True, mkNode 1 False]) 0.8 (mkNode 1 False) = 0.085 * 0.8
   \<and> infectProb (spreadBase 0 (- 1) [mkNode 0 True, mkNode 1 False]) 0.8 (mkNode 1 False) 0.1
       = 1 - exp (- (0.085 * 0.8) * 0.1)
   \<and> trySpread (spreadBase 0 (- 1) [mkNode 0 True, mkNode 1 False]) 0.8 0.1 0 (\<lambda>i. 0) 0 1
        ([mkNode 0 True, mkNode 1 False], 0, 0)
       = ([mkNode 0 True, (mkNode 1 False)\<lparr>infected := True, lastInfectAt := 0\<rparr>], 1, 0)"
  using hazard_formula [where ns = "[mkNode 0 True, mkNode 1 False]" and src = 0 and dst = 1
      and t = 0 and sweepUntil = "- 1" and ?ns0.0 = "[mkNode 0 True, mkNode 1 False]"
      and rnd = "\<lambda>i. 0" and k = 0 and sc = 0]
  by (simp add: mkNode_def)

subsection \<open>After the run has ended\<close>

lemma gameOver_mainLoop: "gameOver st \<Longrightarrow> mainLoop ctx rnd lastT t st = st"
  by (simp add: mainLoop_def)

lemma gameOver_onKey: "gameOver st \<Longrightarrow> onKey k t st = st"
  by (simp add: onKey_def)

text \<open>
  C3. The claim is that an ended run is frozen against every step and every action
  through every entry point. The main loop and the hotkeys are gated on the run flags,
  but the buttons of the action panel are not: in an ended run with a selected node,
  enough energy and no cooldown pending, a click on Isolate toggles the isolation of the
  node and spends energy.
\<close>

theorem ended_click_applies_action:
  assumes "gameOver st" and "selected st = Some sel" and "sel < length (nodes st)"
    and "canUse t st Isolate"
  shows "isolated (nodes (clickAction Isolate t st) ! sel) = (\<not> isolated (nodes st ! sel))
    \<and> energy (clickAction Isolate t st) < energy st
    \<and> mainLoop ctx rnd lastT t st = st \<and> onKey k t st = st"
  using assms
  by (auto simp add: clickAction_def actIsolate_def commit_def pushLog_def spend_def
      canUse_def Let_def ENERGY_MAX_def mainLoop_def onKey_def)

theorem ended_click_applies_action_witness:
  "gameOver endedGame \<and> \<not> isolated (nodes endedGame ! 1)
   \<and> isolated (nodes (clickAction Isolate 5000 endedGame) ! 1)
   \<and> energy endedGame = 70 \<and> energy (clickAction Isolate 5000 endedGame) < 70"
  using ended_click_applies_action [of endedGame 1 5000]
  by (simp add: endedGame_def exampleGame_def mkNode_def canUse_def initialCooldowns_def)

subsection \<open>Rejected actions\<close>

text \<open>
  C4, as stated, fails: the handlers report one message for an action that is not ready,
  whether the energy is short or the cooldown is pending, and the message carries no
  remaining time.
\<close>

theorem rejection_causes_share_report:
  "energy lowEnergyGame < cost Isolate
   \<and> 1000 - cooldowns lowEnergyGame Isolate \<ge> cooldown Isolate
   \<and> energy coolingGame \<ge> cost Isolate
   \<and> 1000 - cooldowns coolingGame Isolate < cooldown Isolate
   \<and> logs (actIsolate 1000 lowEnergyGame) = [NotReady Isolate]
   \<and> logs (actIsolate 1000 coolingGame) = [NotReady Isolate]"
  by (simp add: lowEnergyGame_def coolingGame_def exampleGame_def actIsolate_def canUse_def
      pushLog_def initialCooldowns_def Let_def)

text \<open>
  C4, amended. When a targeted action has no selected node, or the action is not ready
  (energy below its cost or its cooldown pending), the handler changes nothing but the
  log, to which it pushes "Select a node first." in the first case and the action's
  "not ready" message otherwise.
\<close>

theorem rejected_action_only_logs:
  assumes "(a \<noteq> Sweep \<and> selected st = None) \<or> \<not> canUse t st a"
  shows "act a t st = pushLog (rejection a st) st
    \<and> (act a t st)\<lparr>logs := logs st\<rparr> = st"
  using assms
  by (cases a) (auto simp add: rejection_def actIsolate_def actPatch_def actHoneypot_def actSweep_def
      pushLog_def split: option.splits)

theorem rejected_action_only_logs_witness:
  "act Isolate 1000 coolingGame = pushLog (NotReady Isolate) coolingGame
   \<and> (act Isolate 1000 coolingGame)\<lparr>logs := logs coolingGame\<rparr> = coolingGame
   \<and> act Patch 1000 (exampleGame\<lparr>selected := None\<rparr>) = pushLog SelectFirst (exampleGame\<lparr>selected := None\<rparr>)"
proof -
  have h1: "(Isolate \<noteq> Sweep \<and> selected coolingGame = None) \<or> \<not> canUse 1000 coolingGame Isolate"
    by (simp add: coolingGame_def exampleGame_def canUse_def initialCooldowns_def)
  have h2: "(Patch \<noteq> Sweep \<and> selected (exampleGame\<lparr>selected := None\<rparr>) = None)
      \<or> \<not> canUse 1000 (exampleGame\<lparr>selected := None\<rparr>) Patch"
    by simp
  have r1: "rejection Isolate coolingGame = NotReady Isolate"
    by (simp add: rejection_def coolingGame_def exampleGame_def)
  have r2: "rejection Patch (exampleGame\<lparr>selected := None\<rparr>) = SelectFirst"
    by (simp add: rejection_def)
  from rejected_action_only_logs [OF h1] rejected_action_only_logs [OF h2]
  show ?thesis
    unfolding r1 r2 by blast
qed

subsection \<open>Pausing\<close>

text \<open>
  C6, as stated, fails: cooldowns are measured against the real-time clock, which a pause
  does not stop. Isolate used at 1000 and the game paused at 1100 shows 1.1 s left; on
  resume at 5000 nothing is left.
\<close>

theorem cooldown_elapses_while_paused:
  "paused pausedGame
   \<and> cdLeft Isolate 1100 pausedGame = 11 / 10
   \<and> \<not> paused (pauseButton 900 560 7 pausedGame)
   \<and> cdLeft Isolate 5000 (pauseButton 900 560 7 pausedGame) = 0"
  by (simp add: pausedGame_def exampleGame_def cdLeft_def pauseButton_def initialCooldowns_def)

lemma cdLeft_later:
  assumes "0 \<le> d"
  shows "cdLeft a (t + d) st = max 0 (cdLeft a t st - d / 1000)"
proof -
  define c where "c = (cooldown a - (t - cooldowns st a)) / 1000"
  have eq: "(cooldown a - (t + d - cooldowns st a)) / 1000 = c - d / 1000"
    unfolding c_def by (simp add: diff_divide_distrib add_divide_distrib)
  have 1: "cdLeft a (t + d) st = max 0 (c - d / 1000)"
    by (simp only: cdLeft_def eq)
  have 2: "cdLeft a t st = max 0 c"
    by (simp only: cdLeft_def c_def)
  have "0 \<le> d / 1000"
    using assms by simp
  then show ?thesis
    unfolding 1 2 by (simp add: max_def)
qed

text \<open>
  C6, amended. While the run is paused no frame runs, so no simulated time advances and
  no energy regenerates; the cooldowns keep elapsing in real time: after \<open>d\<close> more
  milliseconds the remaining cooldown of every action is the one at the moment of pausing
  less \<open>d / 1000\<close> seconds, floored at 0.
\<close>

theorem paused_halts_ticks_only:
  assumes "paused st" and "running st" and "0 \<le> d"
  shows "mainLoop ctx rnd lastT t st = st
    \<and> pauseButton width height seed st = st\<lparr>paused := False\<rparr>
    \<and> cdLeft a (t + d) (pauseButton width height seed st) = max 0 (cdLeft a t st - d / 1000)"
proof -
  have p: "pauseButton width height seed st = st\<lparr>paused := False\<rparr>"
    using assms by (simp add: pauseButton_def)
  have "cdLeft a (t + d) (st\<lparr>paused := False\<rparr>) = cdLeft a (t + d) st"
    by (simp add: cdLeft_def)
  then have c: "cdLeft a (t + d) (pauseButton width height seed st) = max 0 (cdLeft a t st - d / 1000)"
    using cdLeft_later [OF assms(3), of a t st] by (simp only: p)
  have m: "mainLoop ctx rnd lastT t st = st"
    using assms by (simp add: mainLoop_def)
  show ?thesis
    using p c m by blast
qed

theorem paused_halts_ticks_only_witness:
  "mainLoop True (\<lambda>i. 0) 1100 5000 pausedGame = pausedGame
   \<and> energy (mainLoop True (\<lambda>i. 0) 1100 5000 pausedGame) = 70
   \<and> cdLeft Isolate (1100 + 500) (pauseButton 900 560 7 pausedGame) = 6 / 10"
proof -
  have h: "paused pausedGame" "running pausedGame" "(0::real) \<le> 500"
    by (simp_all add: pausedGame_def exampleGame_def)
  have c: "cdLeft Isolate 1100 pausedGame = 11 / 10"
    by (simp add: pausedGame_def exampleGame_def cdLeft_def)
  have e: "energy pausedGame = 70"
    by (simp add: pausedGame_def exampleGame_def)
  note F = paused_halts_ticks_only [OF h, where ctx = True and rnd = "\<lambda>i. 0" and lastT = 1100
      and t = 1100 and width = 900 and height = 560 and seed = 7 and a = Isolate]
  have G: "mainLoop True (\<lambda>i. 0) 1100 5000 pausedGame = pausedGame"
    using paused_halts_ticks_only [OF h, where ctx = True and rnd = "\<lambda>i. 0" and lastT = 1100
      and t = 5000 and width = 900 and height = 560 and seed = 7 and a = Isolate] by blast
  then have G2: "energy (mainLoop True (\<lambda>i. 0) 1100 5000 pausedGame) = 70"
    by (simp only: e)
  from F have "cdLeft Isolate (1100 + 500) (pauseButton 900 560 7 pausedGame)
      = max 0 (cdLeft Isolate 1100 pausedGame - 500 / 1000)"
    by blast
  then have "cdLeft Isolate (1100 + 500) (pauseButton 900 560 7 pausedGame) = 6 / 10"
    unfolding c by simp
  with G G2 show ?thesis
    by blast
qed

subsection \<open>Restart and new topology\<close>

text \<open>
  C7, as stated, fails: the New Topology command replaces the graph alone. After it the
  energy, timer, score and cooldowns of the session so far stand beside the new graph.
\<close>

theorem resetLayout_keeps_session:
  "nodes (resetLayout 900 560 7 spentGame) = nodes (generateNetwork 900 560 7)
   \<and> edges (resetLayout 900 560 7 spentGame) = edges (generateNetwork 900 560 7)
   \<and> energy (resetLayout 900 560 7 spentGame) = 12
   \<and> timer (resetLayout 900 560 7 spentGame) = 100
   \<and> score (resetLayout 900 560 7 spentGame) = 33
   \<and> cooldowns (resetLayout 900 560 7 spentGame) Sweep = 1000
   \<and> running (resetLayout 900 560 7 spentGame)"
  by (simp add: resetLayout_def spentGame_def exampleGame_def commit_def Let_def)

text \<open>
  C7, amended. A restart replaces the graph by a freshly generated one and, with it,
  resets energy, timer, risk, score, cooldowns, run flags and log to their start values.
  New Topology replaces the graph by a freshly generated one and clears the selection,
  and leaves every other field of the game state as it was.
\<close>

theorem restart_and_reset:
  "nodes (startGame width height seed st) = nodes (generateNetwork width height seed)
   \<and> edges (startGame width height seed st) = edges (generateNetwork width height seed)
   \<and> latestNodes (startGame width height seed st) = nodes (generateNetwork width height seed)
   \<and> energy (startGame width height seed st) = 70
   \<and> timer (startGame width height seed st) = START_TIME
   \<and> risk (startGame width height seed st) = 0
   \<and> score (startGame width height seed st) = 0
   \<and> cooldowns (startGame width height seed st) = initialCooldowns
   \<and> running (startGame width height seed st)
   \<and> \<not> paused (startGame width height seed st)
   \<and> \<not> gameOver (startGame width height seed st)
   \<and> \<not> victory (startGame width height seed st)
   \<and> logs (startGame width height seed st) = [Initialized]
   \<and> resetLayout width height seed st =
       st\<lparr>nodes := nodes (generateNetwork width height seed),
          edges := edges (generateNetwork width height seed),
          selected := None,
          latestNodes := nodes (generateNetwork width height seed)\<rparr>"
  by (simp add: startGame_def resetLayout_def commit_def Let_def)

subsection \<open>Risk\<close>

text \<open>
  C1, as stated, fails: a frame computes the risk from the snapshot stored after the
  previous commit, before its own spread and cleaning phases are applied. In the example
  the frame infects node 1, so that both nodes are infected and the formula gives 1 on
  the frame's nodes, while the risk it sets is 1/2.
\<close>

theorem risk_lags_one_tick:
  "latestNodes exampleGame = nodes exampleGame
   \<and> map infected (nodes (loop True (\<lambda>i. 0) 0 60 exampleGame)) = [True, True]
   \<and> computedRisk (nodes (loop True (\<lambda>i. 0) 0 60 exampleGame)) = 1
   \<and> risk (loop True (\<lambda>i. 0) 0 60 exampleGame) = 1 / 2"
  by (simp add: loop_def exampleGame_def mkNode_def updateGraph_def spreadBase_def
      spreadEdge_def trySpread_def infectProb_def hazard_def cleanNode_def computedRisk_def
      commit_def initialCooldowns_def Let_def START_TIME_def ENERGY_MAX_def CLEAN_TIME_def)

text \<open>
  C1, amended. On every frame with a drawing context the risk is set to the clamped sum
  of the infected share and 0.22 per infected critical node over the snapshot
  \<open>window.__latestNodes\<close>, that is over the nodes committed before this frame; the
  snapshot is the frame's own node array only after the frame, so the risk set by the
  next frame is the formula on this frame's nodes.
\<close>

theorem risk_from_snapshot:
  "risk (loop True rnd lastT t st) = computedRisk (latestNodes st)
   \<and> computedRisk (latestNodes st) =
       clamp (real (length (filter infected (latestNodes st))) / max 1 (real (length (latestNodes st)))
              + real (length (filter (\<lambda>n. critical n \<and> infected n) (latestNodes st))) * 0.22) 0 1
   \<and> latestNodes (loop True rnd lastT t st) = nodes (loop True rnd lastT t st)
   \<and> risk (loop True rnd' lastT' t' (loop True rnd lastT t st))
       = computedRisk (nodes (loop True rnd lastT t st))"
proof -
  have r: "risk (loop True r l u s) = computedRisk (latestNodes s)" for r l u s
    by (simp add: loop_def commit_def Let_def split: prod.splits)
  have n: "latestNodes (loop True rnd lastT t st) = nodes (loop True rnd lastT t st)"
    by (simp add: loop_def commit_def Let_def split: prod.splits)
  have c: "computedRisk (latestNodes st) =
       clamp (real (length (filter infected (latestNodes st))) / max 1 (real (length (latestNodes st)))
              + real (length (filter (\<lambda>n. critical n \<and> infected n) (latestNodes st))) * 0.22) 0 1"
    by (simp add: computedRisk_def clamp_def Let_def)
  show ?thesis
    using r [of rnd lastT t st] r [of rnd' lastT' t' "loop True rnd lastT t st"] n c
    by (simp only:)
qed

subsection \<open>Spread within one tick\<close>

text \<open>
  C10. The spread phase runs through the edge list against one node array: the edges
  after a point see the array as the edges before it left it. So an infection can pass
  two hops in one tick (from node 0 over node 1 to node 2 when the edge 0-1 comes first),
  and the outcome depends on the order of the list: with the edge 1-2 first, node 2 is
  not infected by the end of the tick, whatever the draws.
\<close>

theorem spread_sequential_in_tick:
  "fold (spreadEdge base dt t rnd) (es1 @ es2) st
     = fold (spreadEdge base dt t rnd) es2 (fold (spreadEdge base dt t rnd) es1 st)
   \<and> map infected (fst (updateGraph 0.06 0 (\<lambda>i. 0) (- 1) chainNodes [edge01, edge12]))
       = [True, True, True]
   \<and> (\<forall>rnd'. \<not> infected (fst (updateGraph 0.06 0 rnd' (- 1) chainNodes [edge12, edge01]) ! 2))"
  by (simp add: updateGraph_def chainNodes_def edge01_def edge12_def mkNode_def spreadBase_def
      spreadEdge_def trySpread_def infectProb_def hazard_def cleanNode_def Let_def)

subsection \<open>Sources of randomness\<close>

lemma exp_small: "\<not> exp (- (51 / 10000 :: real)) * 2 < 1"
proof -
  have "1 + (- (51 / 10000 :: real)) \<le> exp (- (51 / 10000))"
    by (rule exp_ge_add_one_self)
  then show ?thesis
    by simp
qed

text \<open>
  C5, as stated, fails: the infection trials compare a value of \<open>Math.random()\<close>, not of
  the seeded stream. The same game state gives different infections for different values
  of \<open>Math.random()\<close>.
\<close>

theorem trials_draw_math_random:
  "map infected (nodes (loop True (\<lambda>i. 0) 0 60 exampleGame)) = [True, True]
   \<and> map infected (nodes (loop True (\<lambda>i. 1 / 2) 0 60 exampleGame)) = [True, False]"
  using exp_small
  by (simp add: loop_def exampleGame_def mkNode_def updateGraph_def spreadBase_def
      spreadEdge_def trySpread_def infectProb_def hazard_def cleanNode_def
      commit_def initialCooldowns_def Let_def START_TIME_def ENERGY_MAX_def CLEAN_TIME_def)

text \<open>
  C5, amended. The generated topology is a function of the dimensions and of the seed
  (read modulo \<open>2^32\<close>), all its draws coming from the seeded stream; an infection trial
  that passes the guard infects its destination exactly when the next value of
  \<open>Math.random()\<close> is below the probability of the attempt.
\<close>

theorem generator_seeded_trials_host_random:
  assumes "seed mod 2 ^ 32 = seed' mod 2 ^ 32"
    and "infected (ns ! src)" and "\<not> isolated (ns ! src)"
    and "\<not> isolated (ns ! dst)" and "\<not> infected (ns ! dst)" and "dst < length ns"
  shows "generateNetwork width height seed = generateNetwork width height seed'
    \<and> infected (fst (trySpread base w dt t rnd src dst (ns, k, sc)) ! dst)
        = (rnd k < infectProb base w (ns ! dst) dt)"
  using assms by (simp add: generateNetwork_def seededRandom_def trySpread_def Let_def)

theorem generator_seeded_trials_host_random_witness:
  "generateNetwork 900 560 5 = generateNetwork 900 560 4294967301
   \<and> infected (fst (trySpread 0.085 1 0.06 0 (\<lambda>i. 0) 0 1 ([mkNode 0 True, mkNode 1 False], 0, 0)) ! 1)
       = (0 < infectProb 0.085 1 (mkNode 1 False) 0.06)"
proof -
  have h: "(5::nat) mod 2 ^ 32 = 4294967301 mod 2 ^ 32"
    by simp
  show ?thesis
    using generator_seeded_trials_host_random [OF h, where ns = "[mkNode 0 True, mkNode 1 False]"
        and src = 0 and dst = 1 and width = 900 and height = 560 and base = "0.085" and w = 1
        and dt = "0.06" and t = 0 and rnd = "\<lambda>i. 0" and k = 0 and sc = 0]
    by (simp add: mkNode_def)
qed

subsection \<open>The generator: placement and critical nodes\<close>

declare placeRing.simps [simp del]

lemma afterDraws_0: "afterDraws s 0 = s"
  by (simp add: afterDraws_def)

lemma afterDraws_add: "afterDraws (afterDraws s j) k = afterDraws s (j + k)"
  by (simp add: afterDraws_def algebra_simps)

lemma rand_snd: "snd (rand s) = afterDraws s 1"
  by (simp add: rand_def Let_def afterDraws_def)

lemma rand_eq_snd: "rand s = (r, s') \<Longrightarrow> s' = afterDraws s 1"
  using rand_snd [of s] by simp

lemma genName_eq_snd:
  assumes "genName s = (nm, s')"
  shows "s' = afterDraws s 2"
proof -
  obtain r1 s1 where a: "rand s = (r1, s1)" by (cases "rand s")
  obtain r2 s2 where b: "rand s1 = (r2, s2)" by (cases "rand s1")
  have "s' = s2"
    using assms a b by (simp add: genName_def Let_def)
  also have "s2 = afterDraws (afterDraws s 1) 1"
    using rand_eq_snd [OF a] rand_eq_snd [OF b] by simp
  finally show ?thesis
    by (simp only: afterDraws_add one_add_one)
qed

lemma ringCount_simps: "ringCount 0 = 11" "ringCount (Suc 0) = 11" "ringCount 2 = 13"
  by (simp_all add: ringCount_def NODES_def rings_def round_def)

lemma placeNode_result:
  "\<exists>n. placeNode cx cy rr rc i ident s = (n, afterDraws s 5) \<and> nid n = ident \<and> fresh n"
proof -
  obtain r1 s1 where a: "rand s = (r1, s1)" by (cases "rand s")
  obtain r2 s2 where b: "rand s1 = (r2, s2)" by (cases "rand s1")
  obtain r3 s3 where c: "rand s2 = (r3, s3)" by (cases "rand s2")
  obtain nm s4 where d: "genName s3 = (nm, s4)" by (cases "genName s3")
  have "s4 = afterDraws (afterDraws (afterDraws (afterDraws s 1) 1) 1) 2"
    using rand_eq_snd [OF a] rand_eq_snd [OF b] rand_eq_snd [OF c] genName_eq_snd [OF d]
    by simp
  then have s4: "s4 = afterDraws s 5"
    by (simp add: afterDraws_def)
  show ?thesis
    using a b c d unfolding s4 by (simp add: placeNode_def Let_def fresh_def)
qed

lemma placeRing_stop:
  assumes "\<not> (i < rc \<and> ident < NODES)"
  shows "placeRing cx cy rr rc i (ident, ns, s) = (ident, ns, s)"
  by (subst placeRing.simps) (simp only: assms if_False)

lemma placeRing_step:
  assumes "i < rc" and "ident < NODES"
  shows "\<exists>n. nid n = ident \<and> fresh n \<and>
     placeRing cx cy rr rc i (ident, ns, s)
       = placeRing cx cy rr rc (i + 1) (ident + 1, ns @ [n], afterDraws s 5)"
proof -
  obtain n where n: "placeNode cx cy rr rc i ident s = (n, afterDraws s 5)"
    "nid n = ident" "fresh n"
    using placeNode_result by blast
  have "placeRing cx cy rr rc i (ident, ns, s)
       = placeRing cx cy rr rc (i + 1) (ident + 1, ns @ [n], afterDraws s 5)"
    using assms n(1) by (subst placeRing.simps) simp
  with n show ?thesis by blast
qed

lemma placeRing_result:
  assumes "ringInv s0 (ident, ns, s)"
  shows "ringInv s0 (placeRing cx cy rr rc i (ident, ns, s))
     \<and> length (fst (snd (placeRing cx cy rr rc i (ident, ns, s)))) = min NODES (length ns + (rc - i))"
  using assms
proof (induction "rc - i" arbitrary: i ident ns s)
  case 0
  then have "\<not> (i < rc \<and> ident < NODES)" by simp
  from placeRing_stop [OF this] 0 show ?case
    by (simp add: ringInv_def)
next
  case (Suc k)
  show ?case
  proof (cases "ident < NODES")
    case False
    then have "\<not> (i < rc \<and> ident < NODES)" by simp
    from placeRing_stop [OF this] Suc.prems False show ?thesis
      by (simp add: ringInv_def)
  next
    case True
    have lt: "i < rc" using Suc.hyps(2) by simp
    obtain n where n: "nid n = ident" "fresh n"
      and st: "placeRing cx cy rr rc i (ident, ns, s)
        = placeRing cx cy rr rc (i + 1) (ident + 1, ns @ [n], afterDraws s 5)"
      using placeRing_step [OF lt True] by blast
    have k: "k = rc - (i + 1)" using Suc.hyps(2) by simp
    have "afterDraws (afterDraws s0 (5 * length ns)) 5 = afterDraws s0 (5 * length (ns @ [n]))"
      by (simp add: afterDraws_def algebra_simps)
    then have inv: "ringInv s0 (ident + 1, ns @ [n], afterDraws s 5)"
      using Suc.prems True n by (simp add: ringInv_def)
    have len: "min NODES (length (ns @ [n]) + (rc - (i + 1))) = min NODES (length ns + (rc - i))"
      using lt by simp
    show ?thesis
      using Suc.hyps(1) [OF k inv] unfolding st len by blast
  qed
qed

lemma placeNodes_result:
  "\<exists>ns. placeNodes width height s = (ns, afterDraws s 160)
     \<and> length ns = NODES \<and> map nid ns = [0..<NODES] \<and> list_all fresh ns"
proof -
  define cx cy radius where "cx = width / 2" and "cy = height / 2"
    and "radius = min width height * 0.36"
  define st0 :: "nat \<times> node list \<times> nat" where "st0 = (0, [], s)"
  define st1 where "st1 = placeRing cx cy (radius * (0.4 + real (0::nat) * 0.3)) (ringCount 0) 0 st0"
  define st2 where "st2 = placeRing cx cy (radius * (0.4 + real (1::nat) * 0.3)) (ringCount 1) 0 st1"
  define st3 where "st3 = placeRing cx cy (radius * (0.4 + real (2::nat) * 0.3)) (ringCount 2) 0 st2"
  have i0: "ringInv s st0"
    by (simp add: st0_def ringInv_def afterDraws_0)
  have r1: "ringInv s st1 \<and> length (fst (snd st1)) = 11"
    using placeRing_result [OF i0 [unfolded st0_def], of cx cy _ "ringCount 0" 0]
    unfolding st1_def st0_def by (simp add: ringCount_simps NODES_def)
  obtain i1 ns1 s1 where e1: "st1 = (i1, ns1, s1)" by (cases st1)
  have r2: "ringInv s st2 \<and> length (fst (snd st2)) = 22"
    using placeRing_result [of s i1 ns1 s1 cx cy _ "ringCount 1" 0] r1
    unfolding st2_def e1 by (simp add: ringCount_simps NODES_def)
  obtain i2 ns2 s2 where e2: "st2 = (i2, ns2, s2)" by (cases st2)
  have r3: "ringInv s st3 \<and> length (fst (snd st3)) = 32"
    using placeRing_result [of s i2 ns2 s2 cx cy _ "ringCount 2" 0] r2
    unfolding st3_def e2 by (simp add: ringCount_simps NODES_def)
  obtain i3 ns3 s3 where e3: "st3 = (i3, ns3, s3)" by (cases st3)
  have up: "[0..<rings] = [0, 1, 2]"
    by (simp add: rings_def upt_rec)
  have "placeNodes width height s = snd st3"
    unfolding placeNodes_def Let_def up st3_def st2_def st1_def st0_def cx_def cy_def radius_def
    by simp
  then have "placeNodes width height s = (ns3, s3)"
    by (simp add: e3)
  moreover have "length ns3 = NODES" "map nid ns3 = [0..<NODES]" "list_all fresh ns3"
    "s3 = afterDraws s 160"
    using r3 unfolding e3 by (simp_all add: ringInv_def NODES_def)
  ultimately show ?thesis
    by blast
qed

lemma unat32_lt: "real (unat (w :: 32 word)) < 4294967296"
proof -
  have "unat w < 2 ^ 32"
    using unsigned_less [of w] by simp
  then have "real (unat w) < real (2 ^ 32)"
    by (simp only: of_nat_less_iff)
  then show ?thesis by simp
qed

lemma rand_shape: "\<exists>w :: 32 word. rand s = (real (unat w) / 4294967296, s + 0x6D2B79F5)"
  unfolding rand_def Let_def by (rule exI) (rule refl)

lemma rand_range: "0 \<le> fst (rand s) \<and> fst (rand s) < 1"
proof -
  obtain w :: "32 word" where "rand s = (real (unat w) / 4294967296, s + 0x6D2B79F5)"
    using rand_shape by blast
  then show ?thesis
    using unat32_lt [of w] by (simp del: of_nat_unat)
qed

lemma drawIndex_less:
  assumes "0 < n"
  shows "drawIndex s n < n"
proof -
  have "fst (rand s) * real n < 1 * real n"
    using rand_range [of s] assms by (intro mult_strict_right_mono) simp_all
  then have "\<lfloor>fst (rand s) * real n\<rfloor> < int n"
    by (simp add: floor_less_iff)
  moreover have "0 \<le> \<lfloor>fst (rand s) * real n\<rfloor>"
    using rand_range [of s] by simp
  ultimately show ?thesis
    unfolding drawIndex_def by linarith
qed

lemma tagCritical_eq:
  "tagCritical i (ns, s) =
     (ns[drawIndex s (length ns) :=
          (ns ! drawIndex s (length ns))\<lparr>critical := True,
             name := CRIT_NAMES ! (i mod length CRIT_NAMES),
             security := min 1 (security (ns ! drawIndex s (length ns)) + 0.15)\<rparr>],
      afterDraws s 1)"
proof -
  obtain r s1 where a: "rand s = (r, s1)" by (cases "rand s")
  show ?thesis
    using a rand_eq_snd [OF a] by (simp add: tagCritical_def drawIndex_def Let_def)
qed

lemma map_update_nth: "(map f xs)[i := f (xs ! i)] = map f xs"
proof (cases "i < length xs")
  case True
  then have "f (xs ! i) = map f xs ! i" by simp
  then show ?thesis by (simp only: list_update_id)
next
  case False
  then have "length (map f xs) \<le> i" by simp
  then show ?thesis by (rule list_update_beyond)
qed

lemma tagCritical_props:
  "length (fst (tagCritical i (ns, s))) = length ns"
  "map nid (fst (tagCritical i (ns, s))) = map nid ns"
  "map infected (fst (tagCritical i (ns, s))) = map infected ns"
  "map isolated (fst (tagCritical i (ns, s))) = map isolated ns"
  "map critical (fst (tagCritical i (ns, s))) = (map critical ns)[drawIndex s (length ns) := True]"
  "snd (tagCritical i (ns, s)) = afterDraws s 1"
  by (simp_all add: tagCritical_eq map_update map_update_nth)

lemma tagCriticals_props:
  "\<exists>ns'. tagCriticals (ns, s) = (ns', afterDraws s 3)
     \<and> length ns' = length ns \<and> map nid ns' = map nid ns
     \<and> map infected ns' = map infected ns \<and> map isolated ns' = map isolated ns
     \<and> map critical ns' = (map critical ns)
          [drawIndex s (length ns) := True,
           drawIndex (afterDraws s 1) (length ns) := True,
           drawIndex (afterDraws s 2) (length ns) := True]"
proof -
  define ns1 where "ns1 = fst (tagCritical 0 (ns, s))"
  define ns2 where "ns2 = fst (tagCritical 1 (ns1, afterDraws s 1))"
  define ns3 where "ns3 = fst (tagCritical 2 (ns2, afterDraws s 2))"
  have e1: "tagCritical 0 (ns, s) = (ns1, afterDraws s 1)"
    unfolding ns1_def using tagCritical_props(6) [of 0 ns s] by (simp add: prod_eq_iff)
  have e2: "tagCritical 1 (ns1, afterDraws s 1) = (ns2, afterDraws s 2)"
    unfolding ns2_def using tagCritical_props(6) [of 1 ns1 "afterDraws s 1"]
    by (simp add: prod_eq_iff afterDraws_def)
  have e3: "tagCritical 2 (ns2, afterDraws s 2) = (ns3, afterDraws s 3)"
    unfolding ns3_def using tagCritical_props(6) [of 2 ns2 "afterDraws s 2"]
    by (simp add: prod_eq_iff afterDraws_def)
  have up: "[0..<CRITICAL_COUNT] = [0, 1, 2]"
    by (simp add: CRITICAL_COUNT_def upt_rec)
  have r: "tagCriticals (ns, s) = (ns3, afterDraws s 3)"
    using e1 e2 e3 unfolding tagCriticals_def up by simp
  have l: "length ns1 = length ns" "length ns2 = length ns" "length ns3 = length ns"
    unfolding ns1_def ns2_def ns3_def by (simp_all add: tagCritical_props)
  have "map nid ns3 = map nid ns" "map infected ns3 = map infected ns"
    "map isolated ns3 = map isolated ns"
    unfolding ns1_def ns2_def ns3_def by (simp_all add: tagCritical_props)
  moreover have "map critical ns3 = (map critical ns)
          [drawIndex s (length ns) := True,
           drawIndex (afterDraws s 1) (length ns) := True,
           drawIndex (afterDraws s 2) (length ns) := True]"
    using l(1,2) unfolding ns3_def ns2_def ns1_def
    by (simp add: tagCritical_props)
  ultimately show ?thesis
    using r l(3) by blast
qed

lemma seedInfection_eq:
  "seedInfection i (ns, s) =
     (ns[drawIndex s (length ns) :=
          (ns ! drawIndex s (length ns))\<lparr>infected := True, lastInfectAt := 0\<rparr>],
      afterDraws s 1)"
proof -
  obtain r s1 where a: "rand s = (r, s1)" by (cases "rand s")
  show ?thesis
    using a rand_eq_snd [OF a] by (simp add: seedInfection_def drawIndex_def Let_def)
qed

lemma seedInfection_props:
  "length (fst (seedInfection i (ns, s))) = length ns"
  "map nid (fst (seedInfection i (ns, s))) = map nid ns"
  "map critical (fst (seedInfection i (ns, s))) = map critical ns"
  "map isolated (fst (seedInfection i (ns, s))) = map isolated ns"
  by (simp_all add: seedInfection_eq map_update map_update_nth)

lemma fold_seedInfection_props:
  "length (fst (fold seedInfection is (ns, s))) = length ns
   \<and> map nid (fst (fold seedInfection is (ns, s))) = map nid ns
   \<and> map critical (fst (fold seedInfection is (ns, s))) = map critical ns
   \<and> map isolated (fst (fold seedInfection is (ns, s))) = map isolated ns"
proof (induction "is" arbitrary: ns s)
  case Nil
  show ?case by simp
next
  case (Cons i "is")
  obtain ns1 s1 where e: "seedInfection i (ns, s) = (ns1, s1)"
    by (cases "seedInfection i (ns, s)")
  have "length ns1 = length ns" "map nid ns1 = map nid ns"
    "map critical ns1 = map critical ns" "map isolated ns1 = map isolated ns"
    using seedInfection_props [of i ns s] unfolding e by simp_all
  then show ?case
    using Cons.IH [of ns1 s1] by (simp add: e)
qed

text \<open>The generator, phase by phase.\<close>

lemma generateNetwork_parts:
  "\<exists>ns1 ns2 es1 s3 es2 s4.
     placeNodes width height (seededRandom seed) = (ns1, afterDraws (seededRandom seed) 160)
     \<and> tagCriticals (ns1, afterDraws (seededRandom seed) 160)
         = (ns2, afterDraws (seededRandom seed) 163)
     \<and> fold (connectNode ns2) [0..<length ns2] ([], afterDraws (seededRandom seed) 163) = (es1, s3)
     \<and> fold (crossLink ns2) [0..<12] (es1, s3) = (es2, s4)
     \<and> generateNetwork width height seed
         = \<lparr>nodes = fst (fold seedInfection [0..<2] (ns2, s4)), edges = es2\<rparr>
     \<and> length ns1 = NODES \<and> map nid ns1 = [0..<NODES] \<and> list_all fresh ns1"
proof -
  obtain ns1 where p: "placeNodes width height (seededRandom seed)
      = (ns1, afterDraws (seededRandom seed) 160)"
    "length ns1 = NODES" "map nid ns1 = [0..<NODES]" "list_all fresh ns1"
    using placeNodes_result by blast
  obtain ns2 where t: "tagCriticals (ns1, afterDraws (seededRandom seed) 160)
      = (ns2, afterDraws (afterDraws (seededRandom seed) 160) 3)"
    using tagCriticals_props by blast
  have t': "tagCriticals (ns1, afterDraws (seededRandom seed) 160)
      = (ns2, afterDraws (seededRandom seed) 163)"
    using t by (simp add: afterDraws_def)
  obtain es1 s3 where c: "fold (connectNode ns2) [0..<length ns2]
      ([], afterDraws (seededRandom seed) 163) = (es1, s3)"
    by (cases "fold (connectNode ns2) [0..<length ns2] ([], afterDraws (seededRandom seed) 163)")
  obtain es2 s4 where x: "fold (crossLink ns2) [0..<12] (es1, s3) = (es2, s4)"
    by (cases "fold (crossLink ns2) [0..<12] (es1, s3)")
  have n12: "nat \<lfloor>real NODES * 0.4\<rfloor> = 12"
    by (simp add: NODES_def)
  have "generateNetwork width height seed
         = \<lparr>nodes = fst (fold seedInfection [0..<2] (ns2, s4)), edges = es2\<rparr>"
    using n12 c x by (simp add: generateNetwork_def Let_def p(1) t' split: prod.splits)
  with p t' c x show ?thesis
    by blast
qed

lemma fresh_not_critical: "list_all fresh ns \<Longrightarrow> map critical ns = replicate (length ns) False"
  by (induction ns) (simp_all add: fresh_def)

lemma count_by_flags: "length (filter P xs) = length (filter (\<lambda>b. b) (map P xs))"
  by (induction xs) simp_all

lemma generated_critical_flags:
  "map critical (nodes (generateNetwork width height seed)) =
     (replicate NODES False)
       [drawIndex (afterDraws (seededRandom seed) 160) NODES := True,
        drawIndex (afterDraws (seededRandom seed) 161) NODES := True,
        drawIndex (afterDraws (seededRandom seed) 162) NODES := True]"
proof -
  obtain ns1 ns2 es1 s3 es2 s4 where
    p: "placeNodes width height (seededRandom seed) = (ns1, afterDraws (seededRandom seed) 160)"
    and t: "tagCriticals (ns1, afterDraws (seededRandom seed) 160)
         = (ns2, afterDraws (seededRandom seed) 163)"
    and g: "generateNetwork width height seed
         = \<lparr>nodes = fst (fold seedInfection [0..<2] (ns2, s4)), edges = es2\<rparr>"
    and l: "length ns1 = NODES" and f: "list_all fresh ns1"
    using generateNetwork_parts [of width height seed] by blast
  obtain ns' where t2: "tagCriticals (ns1, afterDraws (seededRandom seed) 160)
        = (ns', afterDraws (afterDraws (seededRandom seed) 160) 3)"
    and c: "map critical ns' = (map critical ns1)
          [drawIndex (afterDraws (seededRandom seed) 160) (length ns1) := True,
           drawIndex (afterDraws (afterDraws (seededRandom seed) 160) 1) (length ns1) := True,
           drawIndex (afterDraws (afterDraws (seededRandom seed) 160) 2) (length ns1) := True]"
    using tagCriticals_props [of ns1 "afterDraws (seededRandom seed) 160"] by blast
  have same: "ns' = ns2"
    using t t2 by simp
  have "map critical (nodes (generateNetwork width height seed)) = map critical ns2"
    unfolding g using fold_seedInfection_props [of "[0..<2]" ns2 s4] by simp
  also have "\<dots> = (replicate NODES False)
       [drawIndex (afterDraws (seededRandom seed) 160) NODES := True,
        drawIndex (afterDraws (seededRandom seed) 161) NODES := True,
        drawIndex (afterDraws (seededRandom seed) 162) NODES := True]"
    using c fresh_not_critical [OF f] unfolding same l by (simp add: afterDraws_add)
  finally show ?thesis .
qed

lemma seed_28_draws:
  "drawIndex (afterDraws (seededRandom 28) 160) NODES = 11"
  "drawIndex (afterDraws (seededRandom 28) 161) NODES = 8"
  "drawIndex (afterDraws (seededRandom 28) 162) NODES = 8"
  by (simp_all add: drawIndex_def afterDraws_def seededRandom_def rand_def Let_def NODES_def)

text \<open>
  C9. The claim is that every generated topology has exactly \<open>CRITICAL_COUNT\<close> critical
  nodes, drawn distinct. The tagging loop draws an index per iteration and never checks
  it against the earlier draws: for seed 28 the three draws are 11, 8 and 8, and the
  topology has two critical nodes.
\<close>

theorem critical_draws_collide:
  "length (filter critical (nodes (generateNetwork width height 28))) = 2 \<and> CRITICAL_COUNT = 3"
proof -
  have "length (filter critical (nodes (generateNetwork width height 28)))
      = length (filter (\<lambda>b. b) ((replicate NODES False)[11 := True, 8 := True, 8 := True]))"
    by (simp only: count_by_flags [of critical] generated_critical_flags seed_28_draws)
  also have "\<dots> = 2"
    unfolding NODES_def by code_simp
  finally show ?thesis
    by (simp add: CRITICAL_COUNT_def)
qed

subsection \<open>The generator: edges\<close>

lemma findEdge_None_iff: "findEdge es a b = None \<longleftrightarrow> (\<forall>e \<in> set es. \<not> joins e a b)"
  by (auto simp add: findEdge_def joins_def find_None_iff)

lemma joins_pair: "joins e a b \<longleftrightarrow> {edge_a e, edge_b e} = {a, b}"
  by (auto simp add: joins_def doubleton_eq_iff)

lemma edgesOk_Nil: "edgesOk n []"
  by (simp add: edgesOk_def)

lemma edgesOk_snoc:
  assumes "edgesOk n es" and "a < n" and "b < n" and "a \<noteq> b"
    and "\<forall>e \<in> set es. \<not> joins e a b"
  shows "edgesOk n (es @ [\<lparr>edge_a = a, edge_b = b, edge_w = w\<rparr>])"
proof -
  have "{a, b} \<notin> (\<lambda>e. {edge_a e, edge_b e}) ` set es"
    using assms(5) by (auto simp add: joins_pair)
  then show ?thesis
    using assms(1-4) by (simp add: edgesOk_def)
qed

lemma addNear_props:
  assumes "edgesOk n es" and "a < n" and "fst p < n" and "a \<noteq> fst p"
  shows "edgesOk n (fst (addNear a p (es, s)))
    \<and> set es \<subseteq> set (fst (addNear a p (es, s)))
    \<and> (\<exists>e \<in> set (fst (addNear a p (es, s))). joins e a (fst p))"
proof (cases "findEdge es a (fst p) = None")
  case True
  obtain r s1 where r: "rand s = (r, s1)" by (cases "rand s")
  have e: "fst (addNear a p (es, s)) = es @ [\<lparr>edge_a = a, edge_b = fst p, edge_w = 0.5 + r * 0.9\<rparr>]"
    using True r by (simp add: addNear_def Let_def)
  have "\<forall>e \<in> set es. \<not> joins e a (fst p)"
    using True by (simp add: findEdge_None_iff)
  from edgesOk_snoc [OF assms(1,2,3,4) this]
  show ?thesis
    unfolding e by (auto simp add: joins_def)
next
  case False
  then have e: "fst (addNear a p (es, s)) = es"
    by (auto simp add: addNear_def Let_def)
  have "\<exists>e \<in> set es. joins e a (fst p)"
    using False by (simp add: findEdge_None_iff)
  then show ?thesis
    unfolding e using assms(1) by simp
qed

lemma fold_addNear_props:
  assumes "edgesOk n es" and "a < n" and "\<forall>p \<in> set ds. fst p < n \<and> fst p \<noteq> a"
  shows "edgesOk n (fst (fold (addNear a) ds (es, s)))
    \<and> set es \<subseteq> set (fst (fold (addNear a) ds (es, s)))
    \<and> (\<forall>p \<in> set ds. \<exists>e \<in> set (fst (fold (addNear a) ds (es, s))). joins e a (fst p))"
  using assms
proof (induction ds arbitrary: es s)
  case Nil
  then show ?case by simp
next
  case (Cons p ds)
  obtain es1 s1 where st: "addNear a p (es, s) = (es1, s1)"
    by (cases "addNear a p (es, s)")
  have p: "fst p < n" "a \<noteq> fst p"
    using Cons.prems(3) by auto
  have one: "edgesOk n es1" "set es \<subseteq> set es1" "\<exists>e \<in> set es1. joins e a (fst p)"
    using addNear_props [OF Cons.prems(1,2) p, of s] unfolding st by simp_all
  have rest: "\<forall>q \<in> set ds. fst q < n \<and> fst q \<noteq> a"
    using Cons.prems(3) by simp
  note ih = Cons.IH [OF one(1) Cons.prems(2) rest, of s1]
  have sub: "set es1 \<subseteq> set (fst (fold (addNear a) ds (es1, s1)))"
    using ih by blast
  show ?case
    using ih one(2,3) sub by (simp add: st) blast
qed

lemma distinct_map_insort_key:
  "distinct (map g (insort_key f x xs)) \<longleftrightarrow> g x \<notin> g ` set xs \<and> distinct (map g xs)"
  by (induction xs) (auto simp add: set_insort_key)

lemma distinct_map_sort_key: "distinct (map g (sort_key f xs)) \<longleftrightarrow> distinct (map g xs)"
  by (induction xs) (simp_all add: distinct_map_insort_key)

lemma map_fst_filter: "map fst (filter (\<lambda>c. fst c \<noteq> j) xs) = filter (\<lambda>x. x \<noteq> j) (map fst xs)"
  by (induction xs) simp_all

lemma length_filter_neq_upt:
  assumes "i < n"
  shows "length (filter (\<lambda>x. x \<noteq> i) [0..<n]) = n - 1"
proof -
  have "length (filter (\<lambda>x. x \<noteq> i) [0..<n]) = card ({x. x \<noteq> i} \<inter> set [0..<n])"
    by (rule distinct_length_filter) simp
  also have "{x. x \<noteq> i} \<inter> set [0..<n] = {0..<n} - {i}"
    by auto
  also have "card ({0..<n} - {i}) = n - 1"
    using assms by simp
  finally show ?thesis .
qed

text \<open>The candidates of a node: other nodes, each once, four at least.\<close>

lemma dists_props:
  assumes ids: "map nid ns = [0..<n]" and i: "i < n" and n: "5 \<le> n"
  shows "(\<forall>p \<in> set (dists ns (ns ! i) r). fst p < n \<and> fst p \<noteq> i)
    \<and> distinct (map fst (dists ns (ns ! i) r))
    \<and> 4 \<le> length (dists ns (ns ! i) r)"
proof -
  define a where "a = ns ! i"
  define g :: "node \<Rightarrow> nat \<times> real" where "g = (\<lambda>b. (nid b, (node_x a - node_x b) ^ 2 + (node_y a - node_y b) ^ 2))"
  define cand where "cand = filter (\<lambda>c. fst c \<noteq> nid a) (map g ns)"
  have len: "length ns = n"
    using ids by (metis length_map length_upt diff_zero)
  have "nid a = map nid ns ! i"
    unfolding a_def using i len by simp
  then have a: "nid a = i"
    using ids i by simp
  have "map fst (map g ns) = map nid ns"
    by (simp add: g_def)
  then have fc: "map fst cand = filter (\<lambda>x. x \<noteq> i) [0..<n]"
    unfolding cand_def by (simp only: map_fst_filter a ids)
  have d: "dists ns a r = take (k_nearest + 1 + nat \<lfloor>r * 2\<rfloor>) (sort_key snd cand)"
    unfolding dists_def cand_def g_def ..
  have "set (dists ns a r) \<subseteq> set cand"
    unfolding d using set_take_subset [of _ "sort_key snd cand"] by simp
  moreover have "\<forall>p \<in> set cand. fst p < n \<and> fst p \<noteq> i"
  proof
    fix p assume "p \<in> set cand"
    then have "fst p \<in> set (map fst cand)" by simp
    then show "fst p < n \<and> fst p \<noteq> i" unfolding fc by simp
  qed
  ultimately have 1: "\<forall>p \<in> set (dists ns a r). fst p < n \<and> fst p \<noteq> i"
    by blast
  have "distinct (map fst cand)"
    unfolding fc by simp
  then have "distinct (map fst (sort_key snd cand))"
    by (simp only: distinct_map_sort_key)
  then have 2: "distinct (map fst (dists ns a r))"
    unfolding d by (simp only: take_map [symmetric] distinct_take)
  have "length cand = length (map fst cand)"
    by simp
  also have "\<dots> = n - 1"
    unfolding fc by (rule length_filter_neq_upt [OF i])
  finally have "4 \<le> length (sort_key snd cand)"
    using n by simp
  then have 3: "4 \<le> length (dists ns a r)"
    unfolding d by (simp add: k_nearest_def)
  show ?thesis
    using 1 2 3 unfolding a_def by blast
qed

lemma nbrs_mono: "set es \<subseteq> set es' \<Longrightarrow> nbrs es i \<subseteq> nbrs es' i"
  by (auto simp add: nbrs_def)

lemma finite_nbrs: "finite (nbrs es i)"
proof -
  have "nbrs es i \<subseteq> edge_a ` set es \<union> edge_b ` set es"
    by (auto simp add: nbrs_def joins_def)
  then show ?thesis
    by (rule finite_subset) simp
qed

lemma card_nbrs_mono: "set es \<subseteq> set es' \<Longrightarrow> card (nbrs es i) \<le> card (nbrs es' i)"
  by (intro card_mono finite_nbrs nbrs_mono)

lemma card_nbrs_le_degree: "card (nbrs es i) \<le> degree es i"
proof -
  define inc where "inc = filter (\<lambda>e. edge_a e = i \<or> edge_b e = i) es"
  define other :: "edge \<Rightarrow> nat" where "other = (\<lambda>e. if edge_a e = i then edge_b e else edge_a e)"
  have "nbrs es i \<subseteq> other ` set inc"
  proof
    fix b assume "b \<in> nbrs es i"
    then obtain e where e: "e \<in> set es" "joins e i b"
      by (auto simp add: nbrs_def)
    then have "e \<in> set inc" and "other e = b"
      by (auto simp add: inc_def other_def joins_def)
    then show "b \<in> other ` set inc" by blast
  qed
  then have "card (nbrs es i) \<le> card (other ` set inc)"
    by (intro card_mono) simp_all
  also have "\<dots> \<le> card (set inc)"
    by (intro card_image_le) simp
  also have "\<dots> \<le> length inc"
    by (rule card_length)
  finally show ?thesis
    by (simp add: degree_def inc_def)
qed

lemma connectNode_props:
  assumes ok: "edgesOk n es" and ids: "map nid ns = [0..<n]" and i: "i < n" and n: "5 \<le> n"
  shows "edgesOk n (fst (connectNode ns i (es, s)))
    \<and> set es \<subseteq> set (fst (connectNode ns i (es, s)))
    \<and> 4 \<le> card (nbrs (fst (connectNode ns i (es, s))) i)"
proof -
  obtain r s1 where r: "rand s = (r, s1)" by (cases "rand s")
  define ds where "ds = dists ns (ns ! i) r"
  define es' where "es' = fst (fold (addNear i) ds (es, s1))"
  have len: "length ns = n"
    using ids by (metis length_map length_upt diff_zero)
  have "nid (ns ! i) = map nid ns ! i"
    using i len by simp
  then have a: "nid (ns ! i) = i"
    using ids i by simp
  have c: "fst (connectNode ns i (es, s)) = es'"
    using r by (simp add: connectNode_def Let_def a es'_def ds_def)
  have d: "\<forall>p \<in> set ds. fst p < n \<and> fst p \<noteq> i" "distinct (map fst ds)" "4 \<le> length ds"
    using dists_props [OF ids i n, of r] unfolding ds_def by blast+
  have f: "edgesOk n es'" "set es \<subseteq> set es'"
    "\<forall>p \<in> set ds. \<exists>e \<in> set es'. joins e i (fst p)"
    using fold_addNear_props [OF ok i d(1), of s1] unfolding es'_def by blast+
  have "fst ` set ds \<subseteq> nbrs es' i"
    using f(3) by (auto simp add: nbrs_def)
  then have "card (fst ` set ds) \<le> card (nbrs es' i)"
    by (intro card_mono finite_nbrs)
  moreover have "card (fst ` set ds) = length ds"
    using d(2) by (metis distinct_card length_map set_map)
  ultimately have "4 \<le> card (nbrs es' i)"
    using d(3) by simp
  with f(1,2) show ?thesis
    unfolding c by blast
qed

lemma fold_connectNode_props:
  assumes ok: "edgesOk n es" and ids: "map nid ns = [0..<n]" and n: "5 \<le> n" and k: "k \<le> n"
  shows "edgesOk n (fst (fold (connectNode ns) [0..<k] (es, s)))
    \<and> set es \<subseteq> set (fst (fold (connectNode ns) [0..<k] (es, s)))
    \<and> (\<forall>i<k. 4 \<le> card (nbrs (fst (fold (connectNode ns) [0..<k] (es, s))) i))"
  using k
proof (induction k)
  case 0
  show ?case using ok by simp
next
  case (Suc k)
  obtain es1 s1 where st: "fold (connectNode ns) [0..<k] (es, s) = (es1, s1)"
    by (cases "fold (connectNode ns) [0..<k] (es, s)")
  have ih: "edgesOk n es1" "set es \<subseteq> set es1" "\<forall>i<k. 4 \<le> card (nbrs es1 i)"
    using Suc.IH Suc.prems unfolding st by simp_all
  have kn: "k < n" using Suc.prems by simp
  define es2 where "es2 = fst (connectNode ns k (es1, s1))"
  have c: "edgesOk n es2" "set es1 \<subseteq> set es2" "4 \<le> card (nbrs es2 k)"
    using connectNode_props [OF ih(1) ids kn n, of s1] unfolding es2_def by blast+
  have f: "fst (fold (connectNode ns) [0..<Suc k] (es, s)) = es2"
    by (simp add: st es2_def)
  have "\<forall>i<Suc k. 4 \<le> card (nbrs es2 i)"
  proof (intro allI impI)
    fix i assume "i < Suc k"
    show "4 \<le> card (nbrs es2 i)"
    proof (cases "i = k")
      case True
      then show ?thesis using c(3) by simp
    next
      case False
      then have "i < k" using \<open>i < Suc k\<close> by simp
      then have "4 \<le> card (nbrs es1 i)" using ih(3) by simp
      also have "\<dots> \<le> card (nbrs es2 i)" by (rule card_nbrs_mono [OF c(2)])
      finally show ?thesis .
    qed
  qed
  then show ?case
    unfolding f using c(1,2) ih(2) by blast
qed

lemma crossLink_props:
  assumes ok: "edgesOk n es" and len: "length ns = n" and n: "0 < n"
  shows "edgesOk n (fst (crossLink ns i (es, s)))
    \<and> set es \<subseteq> set (fst (crossLink ns i (es, s)))"
proof -
  obtain r1 s1 where r1: "rand s = (r1, s1)" by (cases "rand s")
  obtain r2 s2 where r2: "rand s1 = (r2, s2)" by (cases "rand s1")
  obtain r3 s3 where r3: "rand s2 = (r3, s3)" by (cases "rand s2")
  define a where "a = drawIndex s n"
  define b where "b = drawIndex s1 n"
  have ab: "a < n" "b < n"
    unfolding a_def b_def using n by (simp_all add: drawIndex_less)
  have a': "nat \<lfloor>r1 * real (length ns)\<rfloor> = a" and b': "nat \<lfloor>r2 * real (length ns)\<rfloor> = b"
    using r1 r2 by (simp_all add: a_def b_def drawIndex_def len)
  show ?thesis
  proof (cases "a \<noteq> b \<and> findEdge es a b = None")
    case True
    then have "fst (crossLink ns i (es, s))
        = es @ [\<lparr>edge_a = a, edge_b = b, edge_w = 0.4 + r3 * 0.8\<rparr>]"
      using r1 r2 r3 by (simp add: crossLink_def Let_def a' b')
    moreover have "\<forall>e \<in> set es. \<not> joins e a b"
      using True by (simp add: findEdge_None_iff)
    ultimately show ?thesis
      using edgesOk_snoc [OF ok ab] True by auto
  next
    case False
    then have "fst (crossLink ns i (es, s)) = es"
      using r1 r2 by (auto simp add: crossLink_def Let_def a' b')
    then show ?thesis
      using ok by simp
  qed
qed

lemma fold_crossLink_props:
  assumes "edgesOk n es" and "length ns = n" and "0 < n"
  shows "edgesOk n (fst (fold (crossLink ns) is (es, s)))
    \<and> set es \<subseteq> set (fst (fold (crossLink ns) is (es, s)))"
  using assms(1)
proof (induction "is" arbitrary: es s)
  case Nil
  then show ?case by simp
next
  case (Cons i "is")
  obtain es1 s1 where st: "crossLink ns i (es, s) = (es1, s1)"
    by (cases "crossLink ns i (es, s)")
  have one: "edgesOk n es1" "set es \<subseteq> set es1"
    using crossLink_props [OF Cons.prems assms(2,3), of i s] unfolding st by simp_all
  show ?case
    using Cons.IH [OF one(1), of s1] one(2) by (simp add: st) blast
qed

text \<open>The generated edge list, and the ids of the generated nodes.\<close>

lemma generated_edges:
  "edgesOk NODES (edges (generateNetwork width height seed))
   \<and> (\<forall>i<NODES. 4 \<le> card (nbrs (edges (generateNetwork width height seed)) i))"
proof -
  obtain ns1 ns2 es1 s3 es2 s4 where
    t: "tagCriticals (ns1, afterDraws (seededRandom seed) 160)
         = (ns2, afterDraws (seededRandom seed) 163)"
    and c: "fold (connectNode ns2) [0..<length ns2] ([], afterDraws (seededRandom seed) 163) = (es1, s3)"
    and x: "fold (crossLink ns2) [0..<12] (es1, s3) = (es2, s4)"
    and g: "generateNetwork width height seed
         = \<lparr>nodes = fst (fold seedInfection [0..<2] (ns2, s4)), edges = es2\<rparr>"
    and l: "length ns1 = NODES" and m: "map nid ns1 = [0..<NODES]"
    using generateNetwork_parts [of width height seed] by blast
  obtain ns' where "tagCriticals (ns1, afterDraws (seededRandom seed) 160)
        = (ns', afterDraws (afterDraws (seededRandom seed) 160) 3)"
    and "length ns' = length ns1" and "map nid ns' = map nid ns1"
    using tagCriticals_props [of ns1 "afterDraws (seededRandom seed) 160"] by blast
  then have l2: "length ns2 = NODES" and m2: "map nid ns2 = [0..<NODES]"
    using t l m by simp_all
  have n5: "5 \<le> NODES" and n0: "0 < NODES"
    by (simp_all add: NODES_def)
  have k: "edgesOk NODES es1" "\<forall>i<NODES. 4 \<le> card (nbrs es1 i)"
    using fold_connectNode_props [OF edgesOk_Nil m2 n5 order_refl, of "afterDraws (seededRandom seed) 163"]
    unfolding l2 [symmetric] c by simp_all
  have y: "edgesOk NODES es2" "set es1 \<subseteq> set es2"
    using fold_crossLink_props [OF k(1) l2 n0, of "[0..<12]" s3] unfolding x by simp_all
  have "\<forall>i<NODES. 4 \<le> card (nbrs es2 i)"
    using k(2) card_nbrs_mono [OF y(2)] by (meson order_trans)
  with y(1) show ?thesis
    unfolding g by simp
qed

lemma generated_ids:
  "map nid (nodes (generateNetwork width height seed)) = [0..<NODES]"
proof -
  obtain ns1 ns2 es2 s4 where
    t: "tagCriticals (ns1, afterDraws (seededRandom seed) 160)
         = (ns2, afterDraws (seededRandom seed) 163)"
    and g: "generateNetwork width height seed
         = \<lparr>nodes = fst (fold seedInfection [0..<2] (ns2, s4)), edges = es2\<rparr>"
    and m: "map nid ns1 = [0..<NODES]"
    using generateNetwork_parts [of width height seed] by blast
  obtain ns' where "tagCriticals (ns1, afterDraws (seededRandom seed) 160)
        = (ns', afterDraws (afterDraws (seededRandom seed) 160) 3)"
    and "map nid ns' = map nid ns1"
    using tagCriticals_props [of ns1 "afterDraws (seededRandom seed) 160"] by blast
  then have "map nid ns2 = [0..<NODES]"
    using t m by simp
  then show ?thesis
    unfolding g using fold_seedInfection_props [of "[0..<2]" ns2 s4] by simp
qed

text \<open>
  C8. Every generated topology is well-formed, for every seed and all dimensions: the
  nodes carry the ids \<open>0\<close> to \<open>NODES - 1\<close> in order, no edge joins a node to itself,
  both endpoints of every edge are node ids, no unordered pair of nodes has two edges, and
  every node has at least \<open>k = 3\<close> incident edges.
\<close>

theorem generated_graph_well_formed:
  "map nid (nodes (generateNetwork width height seed)) = [0..<NODES]
   \<and> (\<forall>e \<in> set (edges (generateNetwork width height seed)).
         edge_a e \<noteq> edge_b e \<and> edge_a e < NODES \<and> edge_b e < NODES)
   \<and> distinct (map (\<lambda>e. {edge_a e, edge_b e}) (edges (generateNetwork width height seed)))
   \<and> (\<forall>i<NODES. k_nearest \<le> degree (edges (generateNetwork width height seed)) i)"
proof -
  define es where "es = edges (generateNetwork width height seed)"
  have ok: "edgesOk NODES es" and nb: "\<forall>i<NODES. 4 \<le> card (nbrs es i)"
    using generated_edges [of width height seed] unfolding es_def by simp_all
  have 1: "\<forall>e \<in> set es. edge_a e \<noteq> edge_b e \<and> edge_a e < NODES \<and> edge_b e < NODES"
    using ok by (auto simp add: edgesOk_def list_all_iff)
  have 2: "distinct (map (\<lambda>e. {edge_a e, edge_b e}) es)"
    using ok by (simp add: edgesOk_def)
  have 3: "\<forall>i<NODES. k_nearest \<le> degree es i"
  proof (intro allI impI)
    fix i assume "i < NODES"
    then have "4 \<le> card (nbrs es i)" using nb by simp
    also have "\<dots> \<le> degree es i" by (rule card_nbrs_le_degree)
    finally show "k_nearest \<le> degree es i" by (simp add: k_nearest_def)
  qed
  show ?thesis
    using generated_ids [of width height seed] 1 2 3 unfolding es_def by blast
qed

theorem generated_graph_well_formed_witness:
  "map nid (nodes (generateNetwork 900 560 42)) = [0..<NODES]
   \<and> hd (edges (generateNetwork 900 560 42)) \<in> set (edges (generateNetwork 900 560 42))
   \<and> edge_a (hd (edges (generateNetwork 900 560 42))) \<noteq> edge_b (hd (edges (generateNetwork 900 560 42)))
   \<and> edge_a (hd (edges (generateNetwork 900 560 42))) < NODES
   \<and> edge_b (hd (edges (generateNetwork 900 560 42))) < NODES
   \<and> distinct (map (\<lambda>e. {edge_a e, edge_b e}) (edges (generateNetwork 900 560 42)))
   \<and> (0::nat) < NODES
   \<and> k_nearest \<le> degree (edges (generateNetwork 900 560 42)) 0"
proof -
  define es where "es = edges (generateNetwork 900 560 42)"
  note w = generated_graph_well_formed [of 900 560 42, folded es_def]
  have z: "(0::nat) < NODES" by (simp add: NODES_def)
  have d: "k_nearest \<le> degree es 0"
    using w z by blast
  then have "es \<noteq> []"
    by (auto simp add: degree_def k_nearest_def)
  then have h: "hd es \<in> set es"
    by simp
  show ?thesis
    using w z d h unfolding es_def [symmetric] by blast
qed

subsection \<open>Further properties\<close>

text \<open>
  Isolation blocks spread: when either endpoint of an attempt is isolated, the attempt
  changes nothing and takes no draw, whatever the hazard, the time step and the draws.
\<close>

theorem isolation_blocks_spread:
  assumes "isolated (ns ! src) \<or> isolated (ns ! dst)"
  shows "trySpread base w dt t rnd src dst (ns, k, sc) = (ns, k, sc)"
  using assms by (auto simp add: trySpread_def Let_def)

theorem isolation_blocks_spread_witness:
  "trySpread 0.085 1 0.06 0 (\<lambda>i. 0) 0 1
     ([mkNode 0 True, (mkNode 1 False)\<lparr>isolated := True\<rparr>], 0, 0)
   = ([mkNode 0 True, (mkNode 1 False)\<lparr>isolated := True\<rparr>], 0, 0)"
  using isolation_blocks_spread [of "[mkNode 0 True, (mkNode 1 False)\<lparr>isolated := True\<rparr>]" 0 1
      "0.085" 1 "0.06" 0 "\<lambda>i. 0" 0 0]
  by simp

lemma loop_energy:
  "energy (loop ctx rnd lastT t st)
     = max 0 (min ENERGY_MAX (energy st + 7 * min 0.06 ((t - lastT) / 1000)))"
  unfolding loop_def commit_def Let_def by (simp split: prod.splits)

text \<open>
  Energy bounds: a frame leaves the energy between 0 and \<open>ENERGY_MAX\<close>; an action
  and a restart keep it there, and New Topology leaves it as it is.
\<close>

theorem energy_bounds:
  assumes "0 \<le> energy st" and "energy st \<le> ENERGY_MAX"
  shows "0 \<le> energy (loop ctx rnd lastT t st) \<and> energy (loop ctx rnd lastT t st) \<le> ENERGY_MAX
    \<and> 0 \<le> energy (act a t st) \<and> energy (act a t st) \<le> ENERGY_MAX
    \<and> 0 \<le> energy (startGame width height seed st)
    \<and> energy (startGame width height seed st) \<le> ENERGY_MAX
    \<and> energy (resetLayout width height seed st) = energy st"
proof -
  have l: "0 \<le> energy (loop ctx rnd lastT t st) \<and> energy (loop ctx rnd lastT t st) \<le> ENERGY_MAX"
    unfolding loop_energy by (simp add: ENERGY_MAX_def)
  have sp: "0 \<le> energy (spend t a st) \<and> energy (spend t a st) \<le> ENERGY_MAX"
    by (simp add: spend_def ENERGY_MAX_def)
  have "energy (act a t st) = energy st \<or> energy (act a t st) = energy (spend t a st)"
    by (cases a)
      (simp_all add: actIsolate_def actPatch_def actHoneypot_def actSweep_def pushLog_def
        spend_def commit_def Let_def split: option.splits)
  then have a: "0 \<le> energy (act a t st) \<and> energy (act a t st) \<le> ENERGY_MAX"
    using assms sp by auto
  have s: "0 \<le> energy (startGame width height seed st)
      \<and> energy (startGame width height seed st) \<le> ENERGY_MAX"
    by (simp add: startGame_def commit_def Let_def ENERGY_MAX_def)
  have r: "energy (resetLayout width height seed st) = energy st"
    by (simp add: resetLayout_def commit_def Let_def)
  show ?thesis
    using l a s r by blast
qed

theorem energy_bounds_witness:
  "0 \<le> energy (loop True (\<lambda>i. 0) 0 60 exampleGame)
   \<and> energy (loop True (\<lambda>i. 0) 0 60 exampleGame) \<le> ENERGY_MAX
   \<and> 0 \<le> energy (act Isolate 5000 exampleGame)
   \<and> energy (act Isolate 5000 exampleGame) \<le> ENERGY_MAX"
proof -
  have h: "0 \<le> energy exampleGame" "energy exampleGame \<le> ENERGY_MAX"
    by (simp_all add: exampleGame_def ENERGY_MAX_def)
  show ?thesis
    using energy_bounds [OF h, where ctx = True and rnd = "\<lambda>i. 0" and lastT = 0 and t = 60
        and a = Isolate]
      energy_bounds [OF h, where a = Isolate and t = 5000]
    by blast
qed

lemma filter_update_le: "length (filter P (xs[i := x])) \<le> Suc (length (filter P xs))"
proof (induction xs arbitrary: i)
  case Nil
  show ?case by simp
next
  case (Cons y ys)
  show ?case
  proof (cases i)
    case 0
    then show ?thesis by simp
  next
    case (Suc j)
    then show ?thesis using Cons.IH [of j] by simp
  qed
qed

text \<open>
  Every generated topology has at least one and at most \<open>CRITICAL_COUNT\<close> critical
  nodes.
\<close>

theorem critical_count_bounds:
  "1 \<le> length (filter critical (nodes (generateNetwork width height seed)))
   \<and> length (filter critical (nodes (generateNetwork width height seed))) \<le> CRITICAL_COUNT"
proof -
  define a where "a = drawIndex (afterDraws (seededRandom seed) 160) NODES"
  define b where "b = drawIndex (afterDraws (seededRandom seed) 161) NODES"
  define c where "c = drawIndex (afterDraws (seededRandom seed) 162) NODES"
  define fl where "fl = (replicate NODES False)[a := True, b := True, c := True]"
  have n: "length (filter critical (nodes (generateNetwork width height seed)))
      = length (filter (\<lambda>b. b) fl)"
    by (simp only: count_by_flags [of critical] generated_critical_flags fl_def a_def b_def c_def)
  have "c < NODES"
    unfolding c_def by (rule drawIndex_less) (simp add: NODES_def)
  then have "fl ! c = True"
    by (simp add: fl_def)
  moreover have "c < length fl"
    using \<open>c < NODES\<close> by (simp add: fl_def)
  ultimately have "True \<in> set fl"
    by (metis nth_mem)
  then have "True \<in> set (filter (\<lambda>b. b) fl)"
    by simp
  then have lo: "1 \<le> length (filter (\<lambda>b. b) fl)"
    by (cases "filter (\<lambda>b. b) fl") simp_all
  have "length (filter (\<lambda>b. b) (replicate NODES False)) = 0"
    by simp
  then have "length (filter (\<lambda>b. b) fl) \<le> Suc (Suc (Suc 0))"
    unfolding fl_def
    using filter_update_le [of "\<lambda>b. b" "(replicate NODES False)[a := True, b := True]" c True]
      filter_update_le [of "\<lambda>b. b" "(replicate NODES False)[a := True]" b True]
      filter_update_le [of "\<lambda>b. b" "replicate NODES False" a True]
    by linarith
  then have hi: "length (filter (\<lambda>b. b) fl) \<le> CRITICAL_COUNT"
    by (simp add: CRITICAL_COUNT_def)
  show ?thesis
    using lo hi unfolding n by blast
qed

end
